theory Spec2Isabelle
  imports Main
begin

section \<open>Python strings\<close>

text \<open>
  A Python \<open>str\<close> is a sequence of Unicode code points, and \<open>len\<close>, \<open>split\<close> and
  \<open>strip\<close> work on code points. A string is therefore a list of code points, each a
  natural number; \<open>lit\<close> writes an ASCII literal. Code points outside ASCII are written
  as numbers (\<open>0xE1\<close> is the a-acute of the message of \<open>validar_regex\<close>).
\<close>

type_synonym pystr = "nat list"

definition lit :: "string \<Rightarrow> pystr" where
  "lit s = map of_char s"

text \<open>
  \<open>str.isspace\<close> of one code point, as CPython's Unicode database has it: the
  characters of bidirectional type WS, B or S and of category Zs.
\<close>

definition isspace :: "nat \<Rightarrow> bool" where
  "isspace c =
     ((9 \<le> c \<and> c \<le> 13) \<or> (28 \<le> c \<and> c \<le> 32) \<or> c = 0x85 \<or> c = 0xA0 \<or> c = 0x1680 \<or>
      (0x2000 \<le> c \<and> c \<le> 0x200A) \<or> c = 0x2028 \<or> c = 0x2029 \<or> c = 0x202F \<or>
      c = 0x205F \<or> c = 0x3000)"

text \<open>\<open>s.strip()\<close>: whitespace is removed at both ends.\<close>

definition str_strip :: "pystr \<Rightarrow> pystr" where
  "str_strip s = rev (dropWhile isspace (rev (dropWhile isspace s)))"

text \<open>
  \<open>s.split(sep)\<close> for a separator of one code point: \<open>"".split(",")\<close> is \<open>[""]\<close>,
  and \<open>n\<close> separators give \<open>n + 1\<close> segments. (The result of the recursive call is
  never empty; the second case of the inner \<open>case\<close> only makes the function total.)
\<close>

fun str_split :: "nat \<Rightarrow> pystr \<Rightarrow> pystr list" where
  "str_split sep [] = [[]]"
| "str_split sep (c # cs) =
     (if c = sep then [] # str_split sep cs
      else (case str_split sep cs of
              w # ws \<Rightarrow> (c # w) # ws
            | [] \<Rightarrow> [[c]]))"

text \<open>\<open>sep.join(segments)\<close> for a separator of one code point.\<close>

fun str_join :: "nat \<Rightarrow> pystr list \<Rightarrow> pystr" where
  "str_join sep [] = []"
| "str_join sep [w] = w"
| "str_join sep (w # v # ws) = w @ sep # str_join sep (v # ws)"

text \<open>\<open>str(n)\<close> of an integer: decimal digits, with a minus sign when negative.\<close>

fun str_nat :: "nat \<Rightarrow> pystr" where
  "str_nat n = (if n < 10 then [48 + n] else str_nat (n div 10) @ [48 + n mod 10])"

declare str_nat.simps [simp del]

definition str_int :: "int \<Rightarrow> pystr" where
  "str_int i = (if i < 0 then 45 # str_nat (nat (- i)) else str_nat (nat i))"

section \<open>Python values that JSON carries\<close>

text \<open>
  The values \<open>json.load\<close> returns and \<open>json.dump\<close> accepts: \<open>None\<close>, \<open>bool\<close>,
  \<open>int\<close>, \<open>float\<close>, \<open>str\<close>, \<open>list\<close> and \<open>dict\<close> with string keys. A \<open>dict\<close> keeps its
  insertion order, so it is an association list; its keys are distinct
  (\<open>wf_value\<close> below). A \<open>float\<close> is kept as the JSON literal that denotes it:
  no Submission holds one (number fields are integers), and floating-point
  arithmetic is not modelled.
\<close>

datatype json =
    JNull
  | JBool bool
  | JInt int
  | JFloat pystr
  | JStr pystr
  | JArr "json list"
  | JObj "(pystr \<times> json) list"

text \<open>
  \<open>d[k] = v\<close>: an existing key keeps its position and takes the new value, a new
  key goes to the end.
\<close>

fun dict_set :: "('k \<times> 'v) list \<Rightarrow> 'k \<Rightarrow> 'v \<Rightarrow> ('k \<times> 'v) list" where
  "dict_set [] k v = [(k, v)]"
| "dict_set ((k', v') # d) k v =
     (if k' = k then (k', v) # d else (k', v') # dict_set d k v)"

text \<open>\<open>d.get(k, default)\<close>; \<open>d.get(k)\<close> is \<open>d.get(k, None)\<close>.\<close>

definition dict_get :: "(pystr \<times> json) list \<Rightarrow> pystr \<Rightarrow> json \<Rightarrow> json" where
  "dict_get d k dflt = (case map_of d k of None \<Rightarrow> dflt | Some v \<Rightarrow> v)"

text \<open>\<open>dict(pairs)\<close>: the pairs are stored one after the other.\<close>

definition dict_of_pairs :: "('k \<times> 'v) list \<Rightarrow> ('k \<times> 'v) list" where
  "dict_of_pairs ps = foldl (\<lambda>d (k, v). dict_set d k v) [] ps"

text \<open>
  Truth value of a Python object, as \<open>if x\<close> and \<open>x and y\<close> test it. A float is
  false when it is zero: its literal has no digit but \<open>0\<close> before the exponent
  (a literal so small that it underflows to \<open>0.0\<close> is outside the model).
\<close>

definition float_nonzero :: "pystr \<Rightarrow> bool" where
  "float_nonzero x =
     (\<exists>c \<in> set (takeWhile (\<lambda>c. c \<noteq> 101 \<and> c \<noteq> 69) x). c \<noteq> 48 \<and> c \<noteq> 45 \<and> c \<noteq> 46)"

fun truthy :: "json \<Rightarrow> bool" where
  "truthy JNull = False"
| "truthy (JBool b) = b"
| "truthy (JInt i) = (i \<noteq> 0)"
| "truthy (JFloat x) = float_nonzero x"
| "truthy (JStr s) = (s \<noteq> [])"
| "truthy (JArr xs) = (xs \<noteq> [])"
| "truthy (JObj d) = (d \<noteq> [])"

text \<open>The exceptions the program can meet.\<close>

datatype py_exception =
    JSONDecodeError
  | RecursionError
  | FileNotFoundError
  | AttributeError
  | TypeError
  | KeyError
  | PatternError

section \<open>\<open>json.dump(obj, f, indent=2, ensure_ascii=False)\<close>\<close>

text \<open>
  The standard library's encoder (\<open>json/encoder.py\<close>). With \<open>ensure_ascii=False\<close> a
  string is written between double quotes with only the quote, the backslash
  and the control characters below \<open>0x20\<close> escaped; every other code point is written
  as itself.
\<close>

definition hex_digit :: "nat \<Rightarrow> nat" where
  "hex_digit d = (if d < 10 then 48 + d else 87 + d)"

definition escape_char :: "nat \<Rightarrow> pystr" where
  "escape_char c =
     (if c = 34 then [92, 34]
      else if c = 92 then [92, 92]
      else if c = 8 then [92, 98]
      else if c = 12 then [92, 102]
      else if c = 10 then [92, 110]
      else if c = 13 then [92, 114]
      else if c = 9 then [92, 116]
      else if c < 32 then [92, 117, 48, 48, hex_digit (c div 16), hex_digit (c mod 16)]
      else [c])"

definition encode_basestring :: "pystr \<Rightarrow> pystr" where
  "encode_basestring s = 34 # concat (map escape_char s) @ [34]"

text \<open>A line break followed by the indentation of nesting level \<open>l\<close>, two spaces each.\<close>

definition newline_indent :: "nat \<Rightarrow> pystr" where
  "newline_indent l = 10 # replicate (2 * l) 32"

text \<open>
  \<open>_iterencode\<close> at nesting level \<open>l\<close>. An empty list is \<open>[]\<close> and an empty dict
  \<open>{}\<close>; otherwise every item stands on a line of its own, items are separated by
  a comma, and a key is followed by a colon and one space.
\<close>

fun iterencode :: "nat \<Rightarrow> json \<Rightarrow> pystr"
  and iterencode_list :: "nat \<Rightarrow> json list \<Rightarrow> pystr"
  and iterencode_dict :: "nat \<Rightarrow> (pystr \<times> json) list \<Rightarrow> pystr"
where
  "iterencode l JNull = lit ''null''"
| "iterencode l (JBool b) = (if b then lit ''true'' else lit ''false'')"
| "iterencode l (JInt i) = str_int i"
| "iterencode l (JFloat x) = x"
| "iterencode l (JStr s) = encode_basestring s"
| "iterencode l (JArr []) = lit ''[]''"
| "iterencode l (JArr (x # xs)) =
     91 # newline_indent (Suc l) @ iterencode (Suc l) x @ iterencode_list (Suc l) xs
       @ newline_indent l @ [93]"
| "iterencode l (JObj []) = lit ''{}''"
| "iterencode l (JObj ((k, v) # kvs)) =
     123 # newline_indent (Suc l) @ encode_basestring k @ lit '': '' @ iterencode (Suc l) v
       @ iterencode_dict (Suc l) kvs @ newline_indent l @ [125]"
| "iterencode_list l [] = []"
| "iterencode_list l (x # xs) =
     44 # newline_indent l @ iterencode l x @ iterencode_list l xs"
| "iterencode_dict l [] = []"
| "iterencode_dict l ((k, v) # kvs) =
     44 # newline_indent l @ encode_basestring k @ lit '': '' @ iterencode l v
       @ iterencode_dict l kvs"

definition json_dump :: "json \<Rightarrow> pystr" where
  "json_dump obj = iterencode 0 obj"

section \<open>\<open>json.load(f)\<close>\<close>

text \<open>
  The standard library's decoder (\<open>json/decoder.py\<close>, \<open>json/scanner.py\<close>), reading
  the text of the file. A scanner takes the text from its position on and gives
  back the value with the text that follows it.
\<close>

definition is_json_ws :: "nat \<Rightarrow> bool" where
  "is_json_ws c = (c = 32 \<or> c = 9 \<or> c = 10 \<or> c = 13)"

definition skip_ws :: "pystr \<Rightarrow> pystr" where
  "skip_ws s = dropWhile is_json_ws s"

definition is_digit :: "nat \<Rightarrow> bool" where
  "is_digit c = (48 \<le> c \<and> c \<le> 57)"

definition hex_val :: "nat \<Rightarrow> nat option" where
  "hex_val c =
     (if 48 \<le> c \<and> c \<le> 57 then Some (c - 48)
      else if 65 \<le> c \<and> c \<le> 70 then Some (c - 55)
      else if 97 \<le> c \<and> c \<le> 102 then Some (c - 87)
      else None)"

text \<open>\<open>_decode_uXXXX\<close>: the four hexadecimal digits after \<open>\u\<close>.\<close>

definition decode_uXXXX :: "nat \<Rightarrow> nat \<Rightarrow> nat \<Rightarrow> nat \<Rightarrow> nat option" where
  "decode_uXXXX a b c d =
     (case (hex_val a, hex_val b, hex_val c, hex_val d) of
        (Some h3, Some h2, Some h1, Some h0) \<Rightarrow> Some (((h3 * 16 + h2) * 16 + h1) * 16 + h0)
      | _ \<Rightarrow> None)"

text \<open>The one-letter escapes (\<open>BACKSLASH\<close>).\<close>

definition backslash :: "nat \<Rightarrow> nat option" where
  "backslash esc =
     (if esc = 34 then Some 34
      else if esc = 92 then Some 92
      else if esc = 47 then Some 47
      else if esc = 98 then Some 8
      else if esc = 102 then Some 12
      else if esc = 110 then Some 10
      else if esc = 114 then Some 13
      else if esc = 116 then Some 9
      else None)"

definition cons_chunk :: "nat \<Rightarrow> (pystr \<times> pystr) option \<Rightarrow> (pystr \<times> pystr) option" where
  "cons_chunk c r = (case r of None \<Rightarrow> None | Some (str, rest) \<Rightarrow> Some (c # str, rest))"

text \<open>
  \<open>scanstring\<close> in strict mode, from after the opening quote: the string and the
  text after its closing quote, or \<open>None\<close> where the decoder raises
  \<open>JSONDecodeError\<close> (unterminated string, control character, bad escape). A high
  surrogate followed by an escaped low surrogate is one code point.
\<close>

fun scanstring :: "pystr \<Rightarrow> (pystr \<times> pystr) option" where
  "scanstring [] = None"
| "scanstring (c # s) =
     (if c = 34 then Some ([], s)
      else if c = 92 then
        (case s of
           [] \<Rightarrow> None
         | esc # s1 \<Rightarrow>
             if esc = 117 then
               (case s1 of
                  a # b # c # d # s2 \<Rightarrow>
                    (case decode_uXXXX a b c d of
                       None \<Rightarrow> None
                     | Some uni \<Rightarrow>
                         if 0xD800 \<le> uni \<and> uni \<le> 0xDBFF \<and> take 2 s2 = [92, 117] then
                           (case s2 of
                              _ # _ # e # f # g # h # s3 \<Rightarrow>
                                (case decode_uXXXX e f g h of
                                   None \<Rightarrow> None
                                 | Some uni2 \<Rightarrow>
                                     if 0xDC00 \<le> uni2 \<and> uni2 \<le> 0xDFFF then
                                       cons_chunk
                                         (0x10000 + ((uni - 0xD800) * 1024 + (uni2 - 0xDC00)))
                                         (scanstring s3)
                                     else cons_chunk uni (scanstring s2))
                            | _ \<Rightarrow> None)
                         else cons_chunk uni (scanstring s2))
                | _ \<Rightarrow> None)
             else
               (case backslash esc of
                  None \<Rightarrow> None
                | Some ch \<Rightarrow> cons_chunk ch (scanstring s1)))
      else if c < 32 then None
      else cons_chunk c (scanstring s))"

text \<open>
  \<open>NUMBER_RE\<close>: \<open>(-?(?:0|[1-9][0-9]*))(\.[0-9]+)?([eE][-+]?[0-9]+)?\<close>, matched at the
  position. Without fraction and exponent the number is an \<open>int\<close>, else a \<open>float\<close>.
\<close>

definition nat_of_digits :: "pystr \<Rightarrow> nat" where
  "nat_of_digits ds = foldl (\<lambda>a d. 10 * a + (d - 48)) 0 ds"

definition match_integer :: "pystr \<Rightarrow> pystr" where
  "match_integer s =
     (case s of
        [] \<Rightarrow> []
      | c # r \<Rightarrow>
          if c = 48 then [48]
          else if 49 \<le> c \<and> c \<le> 57 then takeWhile is_digit s
          else [])"

definition match_frac :: "pystr \<Rightarrow> pystr" where
  "match_frac s =
     (case s of
        [] \<Rightarrow> []
      | c # r \<Rightarrow>
          if c = 46 \<and> takeWhile is_digit r \<noteq> [] then 46 # takeWhile is_digit r else [])"

definition match_exp :: "pystr \<Rightarrow> pystr" where
  "match_exp s =
     (case s of
        [] \<Rightarrow> []
      | c # r \<Rightarrow>
          if c = 101 \<or> c = 69 then
            (case r of
               [] \<Rightarrow> []
             | d # r2 \<Rightarrow>
                 if d = 43 \<or> d = 45 then
                   (if takeWhile is_digit r2 \<noteq> [] then c # d # takeWhile is_digit r2 else [])
                 else if takeWhile is_digit r \<noteq> [] then c # takeWhile is_digit r
                 else [])
          else [])"

definition match_number :: "pystr \<Rightarrow> (json \<times> pystr) option" where
  "match_number s =
     (let sign = (case s of [] \<Rightarrow> [] | c # r \<Rightarrow> if c = 45 then [45] else []);
          s1 = drop (length sign) s;
          integer = match_integer s1
      in if integer = [] then None
         else
           (let s2 = drop (length integer) s1;
                frac = match_frac s2;
                s3 = drop (length frac) s2;
                ex = match_exp s3;
                s4 = drop (length ex) s3
            in if frac \<noteq> [] \<or> ex \<noteq> [] then Some (JFloat (sign @ integer @ frac @ ex), s4)
               else Some (JInt (if sign = [] then int (nat_of_digits integer)
                                else - int (nat_of_digits integer)), s4)))"

text \<open>
  The result of a scanner: the value and the rest of the text; \<open>Fail\<close> where the
  decoder raises \<open>JSONDecodeError\<close>; \<open>Deep\<close> when the nesting exceeds the depth the
  scanner was given.
\<close>

datatype 'a scan = Scanned 'a pystr | Fail | Deep

text \<open>
  \<open>scan_once\<close> with \<open>JSONArray\<close> and \<open>JSONObject\<close>. \<open>parse_array\<close> is the loop of
  \<open>JSONArray\<close>, entered at the first value; \<open>parse_object\<close> is the loop of
  \<open>JSONObject\<close>, entered after the opening quote of a key. The first argument
  bounds the number of nested calls.
\<close>

fun scan_once :: "nat \<Rightarrow> pystr \<Rightarrow> json scan"
  and parse_array :: "nat \<Rightarrow> pystr \<Rightarrow> json list scan"
  and parse_object :: "nat \<Rightarrow> pystr \<Rightarrow> (pystr \<times> json) list scan"
where
  "scan_once 0 s = Deep"
| "scan_once (Suc n) [] = Fail"
| "scan_once (Suc n) (c # r) =
     (if c = 34 then
        (case scanstring r of
           None \<Rightarrow> Fail
         | Some (str, rest) \<Rightarrow> Scanned (JStr str) rest)
      else if c = 123 then
        (case skip_ws r of
           [] \<Rightarrow> Fail
         | c1 # r1 \<Rightarrow>
             if c1 = 34 then
               (case parse_object n r1 of
                  Scanned pairs rest \<Rightarrow> Scanned (JObj (dict_of_pairs pairs)) rest
                | Fail \<Rightarrow> Fail
                | Deep \<Rightarrow> Deep)
             else if c1 = 125 then Scanned (JObj []) r1
             else Fail)
      else if c = 91 then
        (case skip_ws r of
           [] \<Rightarrow> Fail
         | c1 # r1 \<Rightarrow>
             if c1 = 93 then Scanned (JArr []) r1
             else
               (case parse_array n (c1 # r1) of
                  Scanned values rest \<Rightarrow> Scanned (JArr values) rest
                | Fail \<Rightarrow> Fail
                | Deep \<Rightarrow> Deep))
      else if c = 110 \<and> take 4 (c # r) = lit ''null'' then Scanned JNull (drop 3 r)
      else if c = 116 \<and> take 4 (c # r) = lit ''true'' then Scanned (JBool True) (drop 3 r)
      else if c = 102 \<and> take 5 (c # r) = lit ''false'' then Scanned (JBool False) (drop 4 r)
      else
        (case match_number (c # r) of
           Some (num, rest) \<Rightarrow> Scanned num rest
         | None \<Rightarrow>
             if c = 78 \<and> take 3 (c # r) = lit ''NaN'' then Scanned (JFloat (lit ''NaN'')) (drop 2 r)
             else if c = 73 \<and> take 8 (c # r) = lit ''Infinity'' then
               Scanned (JFloat (lit ''Infinity'')) (drop 7 r)
             else if c = 45 \<and> take 9 (c # r) = lit ''-Infinity'' then
               Scanned (JFloat (lit ''-Infinity'')) (drop 8 r)
             else Fail))"
| "parse_array 0 s = Deep"
| "parse_array (Suc n) s =
     (case scan_once n s of
        Fail \<Rightarrow> Fail
      | Deep \<Rightarrow> Deep
      | Scanned v r \<Rightarrow>
          (case skip_ws r of
             [] \<Rightarrow> Fail
           | c # r1 \<Rightarrow>
               if c = 93 then Scanned [v] r1
               else if c = 44 then
                 (case parse_array n (skip_ws r1) of
                    Scanned vs rest \<Rightarrow> Scanned (v # vs) rest
                  | Fail \<Rightarrow> Fail
                  | Deep \<Rightarrow> Deep)
               else Fail))"
| "parse_object 0 s = Deep"
| "parse_object (Suc n) s =
     (case scanstring s of
        None \<Rightarrow> Fail
      | Some (key, r) \<Rightarrow>
          (case skip_ws r of
             [] \<Rightarrow> Fail
           | c # r1 \<Rightarrow>
               if c \<noteq> 58 then Fail
               else
                 (case scan_once n (skip_ws r1) of
                    Fail \<Rightarrow> Fail
                  | Deep \<Rightarrow> Deep
                  | Scanned v r2 \<Rightarrow>
                      (case skip_ws r2 of
                         [] \<Rightarrow> Fail
                       | c2 # r3 \<Rightarrow>
                           if c2 = 125 then Scanned [(key, v)] r3
                           else if c2 \<noteq> 44 then Fail
                           else
                             (case skip_ws r3 of
                                [] \<Rightarrow> Fail
                              | c3 # r4 \<Rightarrow>
                                  if c3 \<noteq> 34 then Fail
                                  else
                                    (case parse_object n r4 of
                                       Scanned pairs rest \<Rightarrow> Scanned ((key, v) # pairs) rest
                                     | Fail \<Rightarrow> Fail
                                     | Deep \<Rightarrow> Deep))))))"

text \<open>
  \<open>json.loads\<close> on the text of the file: a leading byte-order mark is refused,
  whitespace may surround the one value, and anything after it is "Extra data".
  Each nested call consumes a character, so twice the length of the text bounds the
  nesting (\<open>json_loads_returns\<close> below); CPython's own recursion limit is not modelled.
\<close>

definition json_loads :: "pystr \<Rightarrow> py_exception + json" where
  "json_loads s =
     (if take 1 s = [0xFEFF] then Inl JSONDecodeError
      else
        (case scan_once (2 * length s + 1) (skip_ws s) of
           Scanned obj rest \<Rightarrow> if skip_ws rest = [] then Inr obj else Inl JSONDecodeError
         | Fail \<Rightarrow> Inl JSONDecodeError
         | Deep \<Rightarrow> Inl RecursionError))"

text \<open>
  The literals that denote a float: the three constants, and what \<open>NUMBER_RE\<close>
  matches as a whole with a fraction or an exponent.
\<close>

definition float_literal :: "pystr \<Rightarrow> bool" where
  "float_literal x =
     (x = lit ''NaN'' \<or> x = lit ''Infinity'' \<or> x = lit ''-Infinity''
      \<or> match_number x = Some (JFloat x, []))"

text \<open>
  The values Python holds: every \<open>dict\<close> has distinct keys, and a \<open>float\<close> is
  denoted by a float literal. Every decoded value is such a value
  (\<open>json_loads_wf\<close>), and so is every Submission (\<open>is_submission_wf\<close>).
\<close>

fun wf_value :: "json \<Rightarrow> bool"
  and wf_list :: "json list \<Rightarrow> bool"
  and wf_dict :: "(pystr \<times> json) list \<Rightarrow> bool"
where
  "wf_value JNull = True"
| "wf_value (JBool b) = True"
| "wf_value (JInt i) = True"
| "wf_value (JFloat x) = float_literal x"
| "wf_value (JStr s) = True"
| "wf_value (JArr xs) = wf_list xs"
| "wf_value (JObj kvs) = (distinct (map fst kvs) \<and> wf_dict kvs)"
| "wf_list [] = True"
| "wf_list (x # xs) = (wf_value x \<and> wf_list xs)"
| "wf_dict [] = True"
| "wf_dict ((k, v) # kvs) = (wf_value v \<and> wf_dict kvs)"

text \<open>
  The data model of a Submission: a \<open>dict\<close> from field names to a string, an
  integer, a boolean or a list of strings.
\<close>

fun is_field_value :: "json \<Rightarrow> bool" where
  "is_field_value (JStr s) = True"
| "is_field_value (JInt i) = True"
| "is_field_value (JBool b) = True"
| "is_field_value (JArr xs) = list_all (\<lambda>x. case x of JStr s \<Rightarrow> True | _ \<Rightarrow> False) xs"
| "is_field_value _ = False"

definition is_submission :: "json \<Rightarrow> bool" where
  "is_submission v =
     (case v of
        JObj d \<Rightarrow> distinct (map fst d) \<and> list_all (\<lambda>(k, x). is_field_value x) d
      | _ \<Rightarrow> False)"

text \<open>
  Proof devices for the decoder: the nesting depth that decoding a printed value
  takes, the characters a value starts with, and the texts that may follow a
  number without continuing it (the end of the text, whitespace, a comma, a
  closing bracket or brace, among others).
\<close>

fun need :: "json \<Rightarrow> nat"
  and need_list :: "json list \<Rightarrow> nat"
  and need_dict :: "(pystr \<times> json) list \<Rightarrow> nat"
where
  "need JNull = 1"
| "need (JBool b) = 1"
| "need (JInt i) = 1"
| "need (JFloat x) = 1"
| "need (JStr s) = 1"
| "need (JArr xs) = Suc (need_list xs)"
| "need (JObj kvs) = Suc (need_dict kvs)"
| "need_list [] = 0"
| "need_list (x # xs) = Suc (need x + need_list xs)"
| "need_dict [] = 0"
| "need_dict ((k, v) # kvs) = Suc (need v + need_dict kvs)"

definition value_start :: "nat \<Rightarrow> bool" where
  "value_start c =
     (c = 110 \<or> c = 116 \<or> c = 102 \<or> c = 45 \<or> c = 34 \<or> c = 91 \<or> c = 123 \<or> c = 78 \<or> c = 73
      \<or> is_digit c)"

definition follow :: "pystr \<Rightarrow> bool" where
  "follow rest =
     (case rest of
        [] \<Rightarrow> True
      | c # _ \<Rightarrow> \<not> is_digit c \<and> c \<noteq> 43 \<and> c \<noteq> 45 \<and> c \<noteq> 46 \<and> c \<noteq> 69 \<and> c \<noteq> 101)"

section \<open>JSON texts (RFC 8259)\<close>

text \<open>
  What the specification calls valid JSON, written from the grammar of RFC 8259
  and not from the decoder: whitespace, numbers, the characters of a string, and
  values with the elements of an array and the members of an object. A JSON text
  is one value with whitespace around it. The grammar of the RFC puts the
  optional whitespace around the six structural characters; here it stands
  around the elements of an array, around the parts of a member and around the
  whole text, which gives the same texts. The code points of a Python \<open>str\<close> end
  at \<open>0x10FFFF\<close>, as the unescaped characters of the grammar do; the type of
  strings does not record that bound, and neither does the grammar here.
\<close>

text \<open>\<open>ws\<close>: spaces, horizontal tabs, line feeds and carriage returns.\<close>

definition rfc_ws :: "pystr \<Rightarrow> bool" where
  "rfc_ws w = list_all (\<lambda>c. c = 32 \<or> c = 9 \<or> c = 10 \<or> c = 13) w"

text \<open>\<open>number = [ minus ] int [ frac ] [ exp ]\<close>.\<close>

definition rfc_digits :: "pystr \<Rightarrow> bool" where
  "rfc_digits ds = (ds \<noteq> [] \<and> list_all (\<lambda>c. 48 \<le> c \<and> c \<le> 57) ds)"

definition rfc_int :: "pystr \<Rightarrow> bool" where
  "rfc_int s = (s = [48] \<or> rfc_digits s \<and> hd s \<noteq> 48)"

definition rfc_frac :: "pystr \<Rightarrow> bool" where
  "rfc_frac s = (case s of [] \<Rightarrow> False | c # ds \<Rightarrow> c = 46 \<and> rfc_digits ds)"

definition rfc_exp :: "pystr \<Rightarrow> bool" where
  "rfc_exp s =
     (case s of
        [] \<Rightarrow> False
      | c # r \<Rightarrow>
          (c = 101 \<or> c = 69) \<and>
          (case r of
             [] \<Rightarrow> False
           | d # ds \<Rightarrow> if d = 43 \<or> d = 45 then rfc_digits ds else rfc_digits r))"

inductive rfc_number :: "pystr \<Rightarrow> bool" where
  "sign = [] \<or> sign = [45] \<Longrightarrow> rfc_int i \<Longrightarrow> f = [] \<or> rfc_frac f \<Longrightarrow> e = [] \<or> rfc_exp e
     \<Longrightarrow> rfc_number (sign @ i @ f @ e)"

text \<open>
  The characters between the quotes of a string: unescaped characters, the
  two-character escapes, and \<open>\u\<close> with four hexadecimal digits.
\<close>

definition rfc_hex :: "nat \<Rightarrow> bool" where
  "rfc_hex c = (48 \<le> c \<and> c \<le> 57 \<or> 65 \<le> c \<and> c \<le> 70 \<or> 97 \<le> c \<and> c \<le> 102)"

inductive rfc_chars :: "pystr \<Rightarrow> bool" where
  "rfc_chars []"
| "32 \<le> c \<Longrightarrow> c \<noteq> 34 \<Longrightarrow> c \<noteq> 92 \<Longrightarrow> rfc_chars s \<Longrightarrow> rfc_chars (c # s)"
| "e = 34 \<or> e = 92 \<or> e = 47 \<or> e = 98 \<or> e = 102 \<or> e = 110 \<or> e = 114 \<or> e = 116 \<Longrightarrow>
     rfc_chars s \<Longrightarrow> rfc_chars (92 # e # s)"
| "rfc_hex a \<Longrightarrow> rfc_hex b \<Longrightarrow> rfc_hex c \<Longrightarrow> rfc_hex d \<Longrightarrow> rfc_chars s \<Longrightarrow>
     rfc_chars (92 # 117 # a # b # c # d # s)"

text \<open>
  \<open>value\<close>, with \<open>json_elements\<close> for what stands between the brackets of a
  non-empty array and \<open>json_members\<close> for what stands between the braces of a
  non-empty object. The grammar has one parameter: whether the constants \<open>NaN\<close>,
  \<open>Infinity\<close> and \<open>-Infinity\<close> count as values. They are not JSON, and
  \<open>json.load\<close> reads them.
\<close>

inductive json_value :: "bool \<Rightarrow> pystr \<Rightarrow> bool"
  and json_elements :: "bool \<Rightarrow> pystr \<Rightarrow> bool"
  and json_members :: "bool \<Rightarrow> pystr \<Rightarrow> bool"
  for constants :: bool
where
  null: "json_value constants (lit ''null'')"
| true: "json_value constants (lit ''true'')"
| false: "json_value constants (lit ''false'')"
| nan: "constants \<Longrightarrow> json_value constants (lit ''NaN'')"
| infinity: "constants \<Longrightarrow> json_value constants (lit ''Infinity'')"
| neg_infinity: "constants \<Longrightarrow> json_value constants (lit ''-Infinity'')"
| number: "rfc_number s \<Longrightarrow> json_value constants s"
| string: "rfc_chars s \<Longrightarrow> json_value constants (34 # s @ [34])"
| empty_array: "rfc_ws w \<Longrightarrow> json_value constants (91 # w @ [93])"
| array: "json_elements constants es \<Longrightarrow> json_value constants (91 # es @ [93])"
| empty_object: "rfc_ws w \<Longrightarrow> json_value constants (123 # w @ [125])"
| object: "json_members constants ms \<Longrightarrow> json_value constants (123 # ms @ [125])"
| element: "rfc_ws w1 \<Longrightarrow> json_value constants v \<Longrightarrow> rfc_ws w2 \<Longrightarrow>
     json_elements constants (w1 @ v @ w2)"
| elements: "rfc_ws w1 \<Longrightarrow> json_value constants v \<Longrightarrow> rfc_ws w2 \<Longrightarrow>
     json_elements constants es \<Longrightarrow> json_elements constants (w1 @ v @ w2 @ 44 # es)"
| member: "rfc_ws w1 \<Longrightarrow> rfc_chars k \<Longrightarrow> rfc_ws w2 \<Longrightarrow> rfc_ws w3 \<Longrightarrow>
     json_value constants v \<Longrightarrow> rfc_ws w4 \<Longrightarrow>
     json_members constants (w1 @ 34 # k @ 34 # w2 @ 58 # w3 @ v @ w4)"
| members: "rfc_ws w1 \<Longrightarrow> rfc_chars k \<Longrightarrow> rfc_ws w2 \<Longrightarrow> rfc_ws w3 \<Longrightarrow>
     json_value constants v \<Longrightarrow> rfc_ws w4 \<Longrightarrow> json_members constants ms \<Longrightarrow>
     json_members constants (w1 @ 34 # k @ 34 # w2 @ 58 # w3 @ v @ w4 @ 44 # ms)"

text \<open>\<open>JSON-text = ws value ws\<close>.\<close>

definition json_text :: "bool \<Rightarrow> pystr \<Rightarrow> bool" where
  "json_text constants s =
     (\<exists>w1 v w2. s = w1 @ v @ w2 \<and> rfc_ws w1 \<and> json_value constants v \<and> rfc_ws w2)"

text \<open>Valid JSON, and the texts with the three constants that Python adds.\<close>

definition valid_json :: "pystr \<Rightarrow> bool" where
  "valid_json s = json_text False s"


section \<open>The form generator (\<open>src/app.py\<close>)\<close>

text \<open>
  The object of class \<open>JSONFormGenerator\<close>. \<open>data\<close> is the Submission and \<open>errores\<close>
  the ErrorSet; both are Python dicts.
\<close>

record form_generator =
  schema_path :: pystr
  historial_path :: pystr
  schema :: json
  data :: "(pystr \<times> json) list"
  errores :: "(pystr \<times> pystr) list"

text \<open>
  What lies outside the program, for one run of the script: the values the user
  entered in the widgets (a text input and a number input are read by the name of
  their field and the options passed to them), the buttons pressed, and the
  libraries \<open>re\<close> and \<open>requests\<close>. \<open>re_fullmatch pattern valor\<close> is whether
  \<open>re.fullmatch\<close> finds a match, or the exception it raises for a pattern that does
  not compile. \<open>requests_post url body\<close> is the status code of the response, or
  \<open>str(e)\<close> of the exception raised. \<open>py_str\<close> is \<open>str()\<close> as an f-string
  applies it.
\<close>

record env =
  text_input :: "pystr \<Rightarrow> json \<Rightarrow> pystr"
  number_input :: "pystr \<Rightarrow> json \<Rightarrow> json \<Rightarrow> int"
  checkbox :: "pystr \<Rightarrow> bool"
  py_str :: "json \<Rightarrow> pystr"
  re_fullmatch :: "pystr \<Rightarrow> pystr \<Rightarrow> py_exception + bool"
  guardar_button :: bool
  url_input :: pystr
  form_submit_button :: bool
  requests_post :: "pystr \<Rightarrow> json \<Rightarrow> pystr + int"
  eliminar_button :: "nat \<Rightarrow> bool"

text \<open>
  The files, as text (they are opened with \<open>encoding="utf-8"\<close>; text that UTF-8
  cannot encode or bytes it cannot decode are outside the model).
\<close>

type_synonym filesystem = "pystr \<Rightarrow> pystr option"

text \<open>
  The effects of a run: the files, the alerts shown (\<open>st.success\<close>, \<open>st.warning\<close>,
  \<open>st.error\<close>, \<open>st.info\<close>, in order; titles, separators, \<open>st.json\<close>, expanders and
  the download button are layout and are not recorded), the HTTP POST requests
  issued, and whether \<open>st.experimental_rerun\<close> stopped the script.
\<close>

datatype st_call = St_success pystr | St_warning pystr | St_error pystr | St_info pystr

record world =
  files :: filesystem
  screen :: "st_call list"
  posted :: "(pystr \<times> json) list"
  rerun :: bool



text \<open>The message of line 23, \<open>f"Formato inv\xe1lido para '{campo}'"\<close> in Python's escapes.\<close>

definition formato_invalido :: "pystr \<Rightarrow> pystr" where
  "formato_invalido campo = lit ''Formato inv'' @ [0xE1] @ lit ''lido para '' @ [39] @ campo @ [39]"

text \<open>
  \<open>validar_regex\<close> (lines 20--25). \<open>re.fullmatch\<close> raises \<open>TypeError\<close> for a pattern
  that is not a string.
\<close>

definition validar_regex ::
  "env \<Rightarrow> form_generator \<Rightarrow> pystr \<Rightarrow> pystr \<Rightarrow> json \<Rightarrow> py_exception + (bool \<times> form_generator)" where
  "validar_regex e self campo valor regex =
     (case regex of
        JStr pattern \<Rightarrow>
          (case re_fullmatch e pattern valor of
             Inl ex \<Rightarrow> Inl ex
           | Inr matched \<Rightarrow>
               if \<not> matched then
                 Inr (False, self\<lparr>errores := dict_set (errores self) campo (formato_invalido campo)\<rparr>)
               else Inr (True, self))
      | _ \<Rightarrow> Inl TypeError)"

text \<open>The list comprehension of line 52.\<close>

definition lista_de :: "pystr \<Rightarrow> pystr list" where
  "lista_de texto = map str_strip (filter (\<lambda>i. str_strip i \<noteq> []) (str_split 44 texto))"

text \<open>
  The body of the loop of \<open>render_form\<close> (lines 32--56) for one item of the schema.
  \<open>opciones.get\<close> raises \<open>AttributeError\<close> when \<open>opciones\<close> is not a dict.
\<close>

definition render_campo ::
  "env \<Rightarrow> form_generator \<times> st_call list \<Rightarrow> pystr \<times> json
     \<Rightarrow> py_exception + (form_generator \<times> st_call list)" where
  "render_campo e st item =
     (case st of (self, scr) \<Rightarrow>
      case item of (campo, opciones) \<Rightarrow>
        (case opciones of
           JObj opts \<Rightarrow>
             (let tipo = dict_get opts (lit ''tipo'') JNull;
                  placeholder = dict_get opts (lit ''placeholder'') (JStr []);
                  regex = dict_get opts (lit ''regex'') JNull
              in if tipo = JStr (lit ''texto'') then
                   (let valor = text_input e campo placeholder
                    in case (if valor \<noteq> [] \<and> truthy regex
                             then validar_regex e self campo valor regex
                             else Inr (True, self)) of
                         Inl ex \<Rightarrow> Inl ex
                       | Inr (ok, self') \<Rightarrow>
                           Inr (self'\<lparr>data := dict_set (data self') campo (JStr valor)\<rparr>, scr))
                 else if tipo = JStr (lit ''numero'') then
                   (let minimo = dict_get opts (lit ''min'') (JInt 0);
                        maximo = dict_get opts (lit ''max'') (JInt 100)
                    in Inr (self\<lparr>data := dict_set (data self) campo
                                       (JInt (number_input e campo minimo maximo))\<rparr>, scr))
                 else if tipo = JStr (lit ''booleano'') then
                   Inr (self\<lparr>data := dict_set (data self) campo (JBool (checkbox e campo))\<rparr>, scr)
                 else if tipo = JStr (lit ''lista'') then
                   (let texto = text_input e campo placeholder;
                        lista = lista_de texto
                    in Inr (self\<lparr>data := dict_set (data self) campo (JArr (map JStr lista))\<rparr>, scr))
                 else
                   Inr (self, scr @ [St_warning (lit ''Tipo no reconocido: '' @ py_str e tipo)]))
         | _ \<Rightarrow> Inl AttributeError))"

text \<open>
  \<open>render_form\<close> (lines 27--56): the loop over \<open>self.schema.items()\<close>, in the order
  of the schema; \<open>items\<close> raises \<open>AttributeError\<close> when the schema is not a dict.
\<close>

fun render_campos ::
  "env \<Rightarrow> form_generator \<times> st_call list \<Rightarrow> (pystr \<times> json) list
     \<Rightarrow> py_exception + (form_generator \<times> st_call list)" where
  "render_campos e st [] = Inr st"
| "render_campos e st (item # items) =
     (case render_campo e st item of
        Inl ex \<Rightarrow> Inl ex
      | Inr st' \<Rightarrow> render_campos e st' items)"

definition render_form ::
  "env \<Rightarrow> form_generator \<Rightarrow> st_call list \<Rightarrow> py_exception + (form_generator \<times> st_call list)" where
  "render_form e self scr =
     (case schema self of
        JObj items \<Rightarrow> render_campos e (self, scr) items
      | _ \<Rightarrow> Inl AttributeError)"

text \<open>
  Lines 70--71 and 82--83: the file is opened for writing and the whole list is
  dumped into it.
\<close>

definition escribir_historial :: "filesystem \<Rightarrow> pystr \<Rightarrow> json \<Rightarrow> filesystem" where
  "escribir_historial fs path historial = fs(path \<mapsto> json_dump historial)"

text \<open>
  \<open>guardar_historial\<close> (lines 58--71). A missing file and a file that is not JSON
  leave the list empty; \<open>historial.append\<close> raises \<open>AttributeError\<close> when the file
  holds JSON that is not a list.
\<close>

definition guardar_historial :: "form_generator \<Rightarrow> filesystem \<Rightarrow> py_exception + filesystem" where
  "guardar_historial self fs =
     (case (case fs (historial_path self) of
              None \<Rightarrow> Inr (JArr [])
            | Some content \<Rightarrow>
                (case json_loads content of
                   Inl JSONDecodeError \<Rightarrow> Inr (JArr [])
                 | Inl ex \<Rightarrow> Inl ex
                 | Inr loaded \<Rightarrow> Inr loaded)) of
        Inl ex \<Rightarrow> Inl ex
      | Inr (JArr historial) \<Rightarrow>
          Inr (escribir_historial fs (historial_path self) (JArr (historial @ [JObj (data self)])))
      | Inr _ \<Rightarrow> Inl AttributeError)"

text \<open>\<open>len(x)\<close>: \<open>TypeError\<close> for an object without a length.\<close>

definition py_len :: "json \<Rightarrow> py_exception + nat" where
  "py_len x =
     (case x of
        JArr xs \<Rightarrow> Inr (length xs)
      | JObj d \<Rightarrow> Inr (length d)
      | JStr s \<Rightarrow> Inr (length s)
      | _ \<Rightarrow> Inl TypeError)"

text \<open>
  \<open>eliminar_entrada_historial\<close> (lines 73--84). \<open>json.load\<close> is not guarded here.
  \<open>del historial[index]\<close> removes the entry of a list; on a dict it raises
  \<open>KeyError\<close> (the keys are strings) and on a string \<open>TypeError\<close>. After the
  file is rewritten the script is rerun.
\<close>

definition eliminar_entrada_historial :: "form_generator \<Rightarrow> world \<Rightarrow> int \<Rightarrow> py_exception + world" where
  "eliminar_entrada_historial self w index =
     (case files w (historial_path self) of
        None \<Rightarrow> Inr w
      | Some content \<Rightarrow>
          (case json_loads content of
             Inl ex \<Rightarrow> Inl ex
           | Inr historial \<Rightarrow>
               (case py_len historial of
                  Inl ex \<Rightarrow> Inl ex
                | Inr n \<Rightarrow>
                    if 0 \<le> index \<and> index < int n then
                      (case historial of
                         JArr xs \<Rightarrow>
                           Inr (w\<lparr>files := escribir_historial (files w) (historial_path self)
                                             (JArr (take (nat index) xs @ drop (Suc (nat index)) xs)),
                                  rerun := True\<rparr>)
                       | JObj d \<Rightarrow> Inl KeyError
                       | _ \<Rightarrow> Inl TypeError)
                    else Inr w)))"

text \<open>The messages of \<open>render_output\<close> and \<open>mostrar_historial\<close>.\<close>

definition errores_en_el_formulario :: pystr where
  "errores_en_el_formulario = [0x274C] @ lit '' Errores en el formulario:''"

definition json_valido_generado :: pystr where
  "json_valido_generado = [0x2705] @ lit '' JSON v'' @ [0xE1] @ lit ''lido generado''"

definition guardado_en_historial :: pystr where
  "guardado_en_historial = lit ''Guardado en historial correctamente.''"

definition datos_enviados :: pystr where
  "datos_enviados = [0x2705] @ lit '' Datos enviados correctamente.''"

definition error_al_enviar :: "int \<Rightarrow> pystr" where
  "error_al_enviar status_code =
     [0x26A0, 0xFE0F] @ lit '' Error al enviar: C'' @ [0xF3] @ lit ''digo '' @ str_int status_code"

definition fallo_al_enviar :: "pystr \<Rightarrow> pystr" where
  "fallo_al_enviar msg = [0x274C] @ lit '' Fallo al enviar: '' @ msg"

definition url_requerida :: pystr where
  "url_requerida =
     [0x26A0, 0xFE0F] @ lit '' Deb'' @ [0xE9] @ lit ''s ingresar una URL v'' @ [0xE1] @ lit ''lida.''"

definition no_hay_historial :: pystr where
  "no_hay_historial = lit ''No hay historial guardado a'' @ [0xFA] @ lit ''n.''"

text \<open>
  Lines 115--126 of \<open>render_output\<close>: the form that sends the JSON. Every
  exception of \<open>requests.post\<close> is caught by \<open>except Exception\<close>.
\<close>

definition enviar_json :: "env \<Rightarrow> form_generator \<Rightarrow> world \<Rightarrow> world" where
  "enviar_json e self w =
     (if form_submit_button e then
        (if url_input e \<noteq> [] then
           (let w' = w\<lparr>posted := posted w @ [(url_input e, JObj (data self))]\<rparr>
            in case requests_post e (url_input e) (JObj (data self)) of
                 Inr status_code \<Rightarrow>
                   if status_code = 200 then w'\<lparr>screen := screen w' @ [St_success datos_enviados]\<rparr>
                   else w'\<lparr>screen := screen w' @ [St_warning (error_al_enviar status_code)]\<rparr>
               | Inl msg \<Rightarrow> w'\<lparr>screen := screen w' @ [St_error (fallo_al_enviar msg)]\<rparr>)
         else w\<lparr>screen := screen w @ [St_warning url_requerida]\<rparr>)
      else w)"

text \<open>\<open>render_output\<close> (lines 86--126).\<close>

definition render_output :: "env \<Rightarrow> form_generator \<Rightarrow> world \<Rightarrow> py_exception + world" where
  "render_output e self w =
     (if errores self \<noteq> [] then Inr (w\<lparr>screen := screen w @ [St_error errores_en_el_formulario]\<rparr>)
      else
        (let w1 = w\<lparr>screen := screen w @ [St_success json_valido_generado]\<rparr>
         in case (if guardar_button e then
                    (case guardar_historial self (files w1) of
                       Inl ex \<Rightarrow> Inl ex
                     | Inr fs \<Rightarrow>
                         Inr (w1\<lparr>files := fs,
                                  screen := screen w1 @ [St_success guardado_en_historial]\<rparr>))
                  else Inr w1) of
              Inl ex \<Rightarrow> Inl ex
            | Inr w2 \<Rightarrow> Inr (enviar_json e self w2)))"

text \<open>
  Lines 133--140 of \<open>mostrar_historial\<close>: the list that is shown. A missing file
  and a file that is not JSON give the empty list.
\<close>

definition leer_historial :: "filesystem \<Rightarrow> pystr \<Rightarrow> py_exception + json" where
  "leer_historial fs path =
     (case fs path of
        None \<Rightarrow> Inr (JArr [])
      | Some content \<Rightarrow>
          (case json_loads content of
             Inl JSONDecodeError \<Rightarrow> Inr (JArr [])
           | Inl ex \<Rightarrow> Inl ex
           | Inr historial \<Rightarrow> Inr historial))"

text \<open>
  The loop of lines 146--151 over the entries, last entry first: the button of
  entry \<open>real_index\<close> deletes it, and the rerun ends the loop.
\<close>

fun mostrar_entradas :: "env \<Rightarrow> form_generator \<Rightarrow> world \<Rightarrow> nat list \<Rightarrow> py_exception + world" where
  "mostrar_entradas e self w [] = Inr w"
| "mostrar_entradas e self w (real_index # others) =
     (if eliminar_button e real_index then
        (case eliminar_entrada_historial self w (int real_index) of
           Inl ex \<Rightarrow> Inl ex
         | Inr w' \<Rightarrow> if rerun w' then Inr w' else mostrar_entradas e self w' others)
      else mostrar_entradas e self w others)"

text \<open>
  \<open>mostrar_historial\<close> (lines 128--151). \<open>historial[::-1]\<close> raises \<open>TypeError\<close>
  unless the loaded value is a list or a string.
\<close>

definition mostrar_historial :: "env \<Rightarrow> form_generator \<Rightarrow> world \<Rightarrow> py_exception + world" where
  "mostrar_historial e self w =
     (case leer_historial (files w) (historial_path self) of
        Inl ex \<Rightarrow> Inl ex
      | Inr historial \<Rightarrow>
          if \<not> truthy historial then Inr (w\<lparr>screen := screen w @ [St_info no_hay_historial]\<rparr>)
          else
            (case historial of
               JArr xs \<Rightarrow> mostrar_entradas e self w (rev [0..<length xs])
             | JStr s \<Rightarrow> mostrar_entradas e self w (rev [0..<length s])
             | _ \<Rightarrow> Inl TypeError))"

text \<open>\<open>run\<close> (lines 153--156).\<close>

definition run :: "env \<Rightarrow> form_generator \<Rightarrow> world \<Rightarrow> py_exception + (form_generator \<times> world)" where
  "run e self w =
     (case render_form e self (screen w) of
        Inl ex \<Rightarrow> Inl ex
      | Inr (self', scr) \<Rightarrow>
          (case render_output e self' (w\<lparr>screen := scr\<rparr>) of
             Inl ex \<Rightarrow> Inl ex
           | Inr w' \<Rightarrow>
               if rerun w' then Inr (self', w')
               else
                 (case mostrar_historial e self' w' of
                    Inl ex \<Rightarrow> Inl ex
                  | Inr w'' \<Rightarrow> Inr (self', w''))))"

section \<open>A schema, a user and a history file for the examples\<close>

text \<open>
  The schema has one field of each kind. For the patterns of the examples
  (\<open>Ana\<close>, the empty pattern, and \<open>(\<close>, which does not compile) \<open>re.fullmatch\<close> is
  equality with the pattern, or the error.
\<close>

definition ejemplo_nombre :: "(pystr \<times> json) list" where
  "ejemplo_nombre = [(lit ''tipo'', JStr (lit ''texto'')), (lit ''regex'', JStr (lit ''Ana''))]"

definition ejemplo_etiquetas :: "(pystr \<times> json) list" where
  "ejemplo_etiquetas = [(lit ''tipo'', JStr (lit ''lista''))]"

definition ejemplo_campos :: "(pystr \<times> json) list" where
  "ejemplo_campos =
     [(lit ''nombre'', JObj ejemplo_nombre),
      (lit ''edad'', JObj [(lit ''tipo'', JStr (lit ''numero'')), (lit ''min'', JInt 0),
                          (lit ''max'', JInt 100)]),
      (lit ''activo'', JObj [(lit ''tipo'', JStr (lit ''booleano''))]),
      (lit ''etiquetas'', JObj ejemplo_etiquetas)]"

definition ejemplo_schema :: json where
  "ejemplo_schema = JObj ejemplo_campos"

definition ejemplo_generator :: form_generator where
  "ejemplo_generator =
     \<lparr>schema_path = lit ''esquema.json'', historial_path = lit ''historial.json'',
      schema = ejemplo_schema, data = [], errores = []\<rparr>"

definition ejemplo_fullmatch :: "pystr \<Rightarrow> pystr \<Rightarrow> py_exception + bool" where
  "ejemplo_fullmatch pattern valor =
     (if pattern = lit ''('' then Inl PatternError else Inr (pattern = valor))"

definition ejemplo_env :: env where
  "ejemplo_env =
     \<lparr>text_input = (\<lambda>campo placeholder.
        if campo = lit ''etiquetas'' then lit ''a, b,,c '' else lit ''Bob''),
      number_input = (\<lambda>campo minimo maximo. 30),
      checkbox = (\<lambda>campo. True),
      py_str = (\<lambda>x. []),
      re_fullmatch = ejemplo_fullmatch,
      guardar_button = False,
      url_input = [],
      form_submit_button = True,
      requests_post = (\<lambda>url body. Inr 200),
      eliminar_button = (\<lambda>real_index. False)\<rparr>"

text \<open>A Submission with a value of each kind; \<open>0xE9\<close> is e-acute.\<close>

definition ejemplo_submission :: "(pystr \<times> json) list" where
  "ejemplo_submission =
     [(lit ''nombre'', JStr (lit ''Jos'' @ [0xE9])),
      (lit ''edad'', JInt 30),
      (lit ''activo'', JBool True),
      (lit ''etiquetas'', JArr [JStr (lit ''a''), JStr (lit ''b'')])]"

text \<open>The text of a history file that holds this one Submission.\<close>

definition ejemplo_texto :: pystr where
  "ejemplo_texto =
     lit ''['' @ [10] @
     lit ''  {'' @ [10] @
     lit ''    '' @ [34] @ lit ''nombre'' @ [34] @ lit '': '' @ [34] @ lit ''Jos'' @ [0xE9, 34] @ lit '','' @ [10] @
     lit ''    '' @ [34] @ lit ''edad'' @ [34] @ lit '': 30,'' @ [10] @
     lit ''    '' @ [34] @ lit ''activo'' @ [34] @ lit '': true,'' @ [10] @
     lit ''    '' @ [34] @ lit ''etiquetas'' @ [34] @ lit '': ['' @ [10] @
     lit ''      '' @ [34] @ lit ''a'' @ [34] @ lit '','' @ [10] @
     lit ''      '' @ [34] @ lit ''b'' @ [34] @ [10] @
     lit ''    ]'' @ [10] @
     lit ''  }'' @ [10] @
     lit '']''"

text \<open>
  A run in which the history file holds this Submission, and one in which the
  history file is not JSON.
\<close>

definition ejemplo_world :: world where
  "ejemplo_world =
     \<lparr>files = [lit ''historial.json'' \<mapsto> ejemplo_texto], screen = [], posted = [], rerun = False\<rparr>"

definition ejemplo_world_corrupto :: world where
  "ejemplo_world_corrupto =
     \<lparr>files = [lit ''historial.json'' \<mapsto> lit ''{''], screen = [], posted = [], rerun = False\<rparr>"


section \<open>Decoding what the encoder printed\<close>


lemma dropWhile_replicate: "P x \<Longrightarrow> dropWhile P (replicate n x @ s) = dropWhile P s"
  by (induction n) simp_all

lemma skip_ws_newline_indent: "skip_ws (newline_indent l @ s) = skip_ws s"
  by (simp add: skip_ws_def newline_indent_def is_json_ws_def dropWhile_replicate)

lemma skip_ws_keep: "\<not> is_json_ws c \<Longrightarrow> skip_ws (c # s) = c # s"
  by (simp add: skip_ws_def)

lemma str_nat_digits: "\<forall>c \<in> set (str_nat n). is_digit c"
proof (induction n rule: str_nat.induct)
  case (1 n)
  show ?case
  proof (cases "n < 10")
    case True
    then show ?thesis by (subst str_nat.simps) (simp add: is_digit_def)
  next
    case False
    have "n mod 10 < 10" by simp
    then have "is_digit (48 + n mod 10)" unfolding is_digit_def by linarith
    with False 1 show ?thesis by (subst str_nat.simps) simp
  qed
qed

lemma str_nat_not_Nil: "str_nat n \<noteq> []"
  by (subst str_nat.simps) simp

lemma str_nat_hd: "hd (str_nat n) = 48 \<longleftrightarrow> n = 0"
proof (induction n rule: str_nat.induct)
  case (1 n)
  show ?case
  proof (cases "n < 10")
    case True
    then show ?thesis by (subst str_nat.simps) simp
  next
    case False
    then have "n div 10 \<noteq> 0" by simp
    with False 1 have "hd (str_nat (n div 10)) \<noteq> 48" by simp
    moreover have "hd (str_nat n) = hd (str_nat (n div 10))"
      using False str_nat_not_Nil [of "n div 10"] by (subst str_nat.simps) simp
    ultimately show ?thesis using False by simp
  qed
qed

lemma nat_of_digits_snoc: "nat_of_digits (ds @ [d]) = 10 * nat_of_digits ds + (d - 48)"
  by (simp add: nat_of_digits_def)

lemma nat_of_digits_str_nat: "nat_of_digits (str_nat n) = n"
proof (induction n rule: str_nat.induct)
  case (1 n)
  show ?case
  proof (cases "n < 10")
    case True
    then show ?thesis by (subst str_nat.simps) (simp add: nat_of_digits_def)
  next
    case False
    with 1 have "nat_of_digits (str_nat (n div 10)) = n div 10" by simp
    with False show ?thesis by (subst str_nat.simps) (simp add: nat_of_digits_snoc)
  qed
qed

lemma takeWhile_digits_follow:
  "follow rest \<Longrightarrow> \<forall>c \<in> set ds. is_digit c \<Longrightarrow> takeWhile is_digit (ds @ rest) = ds"
  by (cases rest) (auto simp: follow_def is_digit_def takeWhile_append2 )

lemma match_integer_str_nat:
  assumes "follow rest"
  shows "match_integer (str_nat n @ rest) = str_nat n"
proof (cases "n = 0")
  case True
  have "str_nat 0 = [48]" by (subst str_nat.simps) simp
  with True show ?thesis by (simp add: match_integer_def)
next
  case False
  obtain c cs where s: "str_nat n = c # cs"
    using str_nat_not_Nil [of n] by (cases "str_nat n") auto
  have "is_digit c" using str_nat_digits [of n] s by simp
  moreover have "c \<noteq> 48" using str_nat_hd [of n] False s by simp
  ultimately have "49 \<le> c \<and> c \<le> 57" unfolding is_digit_def by linarith
  moreover have "takeWhile is_digit (str_nat n @ rest) = str_nat n"
    using takeWhile_digits_follow [OF assms str_nat_digits] .
  ultimately show ?thesis using s \<open>c \<noteq> 48\<close> by (simp add: match_integer_def)
qed

lemma match_frac_follow: "follow rest \<Longrightarrow> match_frac rest = []"
  by (cases rest) (auto simp: follow_def match_frac_def)

lemma match_exp_follow: "follow rest \<Longrightarrow> match_exp rest = []"
  by (cases rest) (auto simp: follow_def match_exp_def)

lemma match_number_str_int:
  assumes "follow rest"
  shows "match_number (str_int i @ rest) = Some (JInt i, rest)"
proof (cases "i < 0")
  case True
  let ?n = "nat (- i)"
  have "match_number (45 # str_nat ?n @ rest) = Some (JInt (- int ?n), rest)"
    using assms
    by (simp add: match_number_def match_integer_str_nat str_nat_not_Nil Let_def
        match_frac_follow match_exp_follow nat_of_digits_str_nat)
  with True show ?thesis by (simp add: str_int_def)
next
  case False
  let ?n = "nat i"
  obtain c cs where s: "str_nat ?n = c # cs"
    using str_nat_not_Nil [of ?n] by (cases "str_nat ?n") auto
  have "is_digit c" using str_nat_digits [of ?n] s by simp
  then have "c \<noteq> 45" by (auto simp: is_digit_def)
  then have sg: "(case str_nat ?n @ rest of [] \<Rightarrow> [] | c # r \<Rightarrow> if c = 45 then [45] else []) = []"
    using s by simp
  have "match_number (str_nat ?n @ rest) = Some (JInt (int ?n), rest)"
    using assms unfolding match_number_def sg
    by (simp add: match_integer_str_nat str_nat_not_Nil Let_def
        match_frac_follow match_exp_follow nat_of_digits_str_nat)
  with False show ?thesis by (simp add: str_int_def)
qed

lemma hex_val_hex_digit: "d < 16 \<Longrightarrow> hex_val (hex_digit d) = Some d"
  by (auto simp: hex_val_def hex_digit_def)

lemma scanstring_escape_char: "scanstring (escape_char c @ t) = cons_chunk c (scanstring t)"
proof -
  consider "c = 34" | "c = 92" | "c = 8" | "c = 12" | "c = 10" | "c = 13" | "c = 9"
    | "c < 32" "c \<notin> {8, 9, 10, 12, 13}" | "32 \<le> c" "c \<noteq> 34" "c \<noteq> 92"
    by fastforce
  then show ?thesis
  proof cases
    case 8
    then have e: "escape_char c = [92, 117, 48, 48, hex_digit (c div 16), hex_digit (c mod 16)]"
      by (simp add: escape_char_def)
    have d1: "c div 16 < 16" using 8 by simp
    have "hex_val 48 = Some 0" by (simp add: hex_val_def)
    then have "decode_uXXXX 48 48 (hex_digit (c div 16)) (hex_digit (c mod 16)) = Some c"
      using hex_val_hex_digit [OF d1] hex_val_hex_digit [of "c mod 16"]
      by (simp add: decode_uXXXX_def)
    then show ?thesis using 8 unfolding e by simp
  qed (simp_all add: escape_char_def backslash_def)
qed

lemma scanstring_escaped:
  "scanstring (concat (map escape_char s) @ 34 # rest) = Some (s, rest)"
  by (induction s) (simp_all add: scanstring_escape_char cons_chunk_def)


lemma dict_set_fresh: "k \<notin> fst ` set d \<Longrightarrow> dict_set d k v = d @ [(k, v)]"
  by (induction d) auto

lemma foldl_dict_set_distinct:
  "distinct (map fst (acc @ ps)) \<Longrightarrow> foldl (\<lambda>d (k, v). dict_set d k v) acc ps = acc @ ps"
proof (induction ps arbitrary: acc)
  case Nil
  then show ?case by simp
next
  case (Cons p ps)
  obtain k v where p: "p = (k, v)" by (cases p)
  from Cons.prems have "k \<notin> fst ` set acc" unfolding p by auto
  then have "dict_set acc k v = acc @ [(k, v)]" by (rule dict_set_fresh)
  moreover have "distinct (map fst ((acc @ [(k, v)]) @ ps))" using Cons.prems unfolding p by simp
  ultimately show ?case using Cons.IH [of "acc @ [(k, v)]"] unfolding p by simp
qed

lemma dict_of_pairs_distinct: "distinct (map fst ps) \<Longrightarrow> dict_of_pairs ps = ps"
  using foldl_dict_set_distinct [of "[]" ps] by (simp add: dict_of_pairs_def)

lemma takeWhile_digit_follow: "follow rest \<Longrightarrow> takeWhile is_digit (r @ rest) = takeWhile is_digit r"
proof (induction r)
  case Nil
  then show ?case by (cases rest) (auto simp: follow_def is_digit_def)
next
  case (Cons c r)
  then show ?case by simp
qed

lemma match_integer_follow: "follow rest \<Longrightarrow> match_integer (s @ rest) = match_integer s"
proof (cases s)
  case Nil
  assume "follow rest"
  then show ?thesis unfolding Nil by (cases rest) (auto simp: follow_def match_integer_def is_digit_def)
next
  case (Cons c r)
  assume "follow rest"
  from takeWhile_digit_follow [OF this, of "c # r"] show ?thesis
    unfolding Cons by (simp add: match_integer_def)
qed

lemma match_frac_follow_app: "follow rest \<Longrightarrow> match_frac (s @ rest) = match_frac s"
proof (cases s)
  case Nil
  assume f: "follow rest"
  have "match_frac [] = []" by (simp add: match_frac_def)
  with match_frac_follow [OF f] show ?thesis unfolding Nil by simp
next
  case (Cons c r)
  assume "follow rest"
  from takeWhile_digit_follow [OF this, of r] show ?thesis
    unfolding Cons by (simp add: match_frac_def)
qed

lemma match_exp_follow_app: "follow rest \<Longrightarrow> match_exp (s @ rest) = match_exp s"
proof (cases s)
  case Nil
  assume f: "follow rest"
  have "match_exp [] = []" by (simp add: match_exp_def)
  with match_exp_follow [OF f] show ?thesis unfolding Nil by simp
next
  case (Cons c r)
  assume f: "follow rest"
  show ?thesis
  proof (cases r)
    case Nil
    from f show ?thesis unfolding Cons Nil
      by (cases rest) (auto simp: match_exp_def follow_def is_digit_def)
  next
    case (Cons d r2)
    from takeWhile_digit_follow [OF f, of r2] takeWhile_digit_follow [OF f, of "d # r2"]
    show ?thesis unfolding \<open>s = c # r\<close> Cons by (simp add: match_exp_def)
  qed
qed

lemma length_match_integer: "length (match_integer s) \<le> length s"
  by (cases s) (auto simp: match_integer_def  length_takeWhile_le le_SucI)

lemma length_match_frac: "length (match_frac s) \<le> length s"
  by (cases s) (auto simp: match_frac_def length_takeWhile_le)

lemma length_match_exp: "length (match_exp s) \<le> length s"
proof (cases s)
  case Nil
  then show ?thesis by (simp add: match_exp_def)
next
  case (Cons c r)
  show ?thesis
  proof (cases r)
    case Nil
    then show ?thesis unfolding Cons by (simp add: match_exp_def)
  next
    case (Cons d r2)
    have "length (takeWhile is_digit r2) \<le> length r2" by (rule length_takeWhile_le)
    moreover have "length (takeWhile is_digit (d # r2)) \<le> Suc (length r2)"
      using length_takeWhile_le [of is_digit "d # r2"] by simp
    ultimately show ?thesis unfolding \<open>s = c # r\<close> Cons
      by (simp add: match_exp_def del: takeWhile.simps)
  qed
qed

lemma match_number_follow:
  assumes "follow rest" and "match_number x = Some (v, r)"
  shows "match_number (x @ rest) = Some (v, r @ rest)"
proof -
  from assms(2) obtain c cs where x: "x = c # cs"
    by (cases x) (auto simp: match_number_def match_integer_def)
  define sign where "sign = (if c = 45 then [45] else ([]::pystr))"
  have ls: "length sign \<le> length x" unfolding sign_def x by simp
  define s1 where "s1 = drop (length sign) x"
  define i where "i = match_integer s1"
  define s2 where "s2 = drop (length i) s1"
  define f where "f = match_frac s2"
  define s3 where "s3 = drop (length f) s2"
  define ex where "ex = match_exp s3"
  define s4 where "s4 = drop (length ex) s3"
  have d1: "drop (length sign) (x @ rest) = s1 @ rest" using ls by (simp add: s1_def)
  have i': "match_integer (s1 @ rest) = i" using match_integer_follow [OF assms(1)] by (simp add: i_def)
  have d2: "drop (length i) (s1 @ rest) = s2 @ rest"
    using length_match_integer [of s1] by (simp add: s2_def i_def)
  have f': "match_frac (s2 @ rest) = f" using match_frac_follow_app [OF assms(1)] by (simp add: f_def)
  have d3: "drop (length f) (s2 @ rest) = s3 @ rest"
    using length_match_frac [of s2] by (simp add: s3_def f_def)
  have e': "match_exp (s3 @ rest) = ex" using match_exp_follow_app [OF assms(1)] by (simp add: ex_def)
  have d4: "drop (length ex) (s3 @ rest) = s4 @ rest"
    using length_match_exp [of s3] by (simp add: s4_def ex_def)
  have sg0: "(case x of [] \<Rightarrow> [] | c # r \<Rightarrow> if c = 45 then [45] else []) = sign"
    unfolding x sign_def by simp
  have a: "match_number x =
      (if i = [] then None
       else if f \<noteq> [] \<or> ex \<noteq> [] then Some (JFloat (sign @ i @ f @ ex), s4)
       else Some (JInt (if sign = [] then int (nat_of_digits i) else - int (nat_of_digits i)), s4))"
    unfolding match_number_def Let_def sg0
    unfolding s1_def [symmetric] i_def [symmetric] s2_def [symmetric] f_def [symmetric]
      s3_def [symmetric] ex_def [symmetric] s4_def [symmetric]
    by simp
  have b: "match_number (x @ rest) =
      (if i = [] then None
       else if f \<noteq> [] \<or> ex \<noteq> [] then Some (JFloat (sign @ i @ f @ ex), s4 @ rest)
       else Some (JInt (if sign = [] then int (nat_of_digits i) else - int (nat_of_digits i)), s4 @ rest))"
  proof -
    have sg: "(case x @ rest of [] \<Rightarrow> [] | c # r \<Rightarrow> if c = 45 then [45] else []) = sign"
      unfolding x sign_def by simp
    show ?thesis unfolding match_number_def Let_def sg d1 i' d2 f' d3 e' d4 by simp
  qed
  from a b assms(2) show ?thesis by (auto split: if_splits)
qed


lemma match_number_start:
  assumes "match_number x = Some (v, r)"
  shows "\<exists>c cs. x = c # cs \<and> (c = 45 \<or> is_digit c)"
proof -
  from assms obtain c cs where x: "x = c # cs"
    by (cases x) (auto simp: match_number_def match_integer_def)
  show ?thesis
  proof (cases "c = 45")
    case True
    with x show ?thesis by simp
  next
    case False
    with assms have "match_integer (c # cs) \<noteq> []"
      unfolding x by (auto simp: match_number_def Let_def split: if_splits)
    then have "is_digit c" by (auto simp: match_integer_def is_digit_def split: if_splits)
    with x show ?thesis by simp
  qed
qed










lemma iterencode_start:
  "wf_value v \<Longrightarrow> \<exists>c cs. iterencode l v = c # cs \<and> value_start c"
proof (cases v)
  case (JFloat x)
  assume "wf_value v"
  with JFloat have "float_literal x" by simp
  then consider "x = lit ''NaN''" | "x = lit ''Infinity''" | "x = lit ''-Infinity''"
    | "match_number x = Some (JFloat x, [])"
    unfolding float_literal_def by blast
  then show ?thesis
  proof cases
    case 4
    from match_number_start [OF 4] JFloat show ?thesis by (auto simp: value_start_def)
  qed (simp_all add: JFloat value_start_def lit_def)
next
  case (JInt i)
  obtain c cs where s: "str_nat (nat \<bar>i\<bar>) = c # cs"
    using str_nat_not_Nil [of "nat \<bar>i\<bar>"] by (cases "str_nat (nat \<bar>i\<bar>)") auto
  have "is_digit c" using str_nat_digits [of "nat \<bar>i\<bar>"] s by simp
  then show ?thesis using JInt s
    by (cases "i < 0") (auto simp: str_int_def value_start_def abs_if)
next
  case (JArr xs)
  then show ?thesis by (cases xs) (simp_all add: value_start_def lit_def)
next
  case (JObj kvs)
  then show ?thesis
  proof (cases kvs)
    case Nil
    with JObj show ?thesis by (simp add: value_start_def lit_def)
  next
    case (Cons kv kvs')
    obtain k v' where "kv = (k, v')" by (cases kv)
    with JObj Cons show ?thesis by (simp add: value_start_def)
  qed
qed (simp_all add: value_start_def lit_def encode_basestring_def)

lemma value_start_not_ws: "value_start c \<Longrightarrow> \<not> is_json_ws c"
  by (auto simp: value_start_def is_json_ws_def is_digit_def)

lemma skip_ws_iterencode: "wf_value v \<Longrightarrow> skip_ws (iterencode l v @ s) = iterencode l v @ s"
  using iterencode_start [of v l] value_start_not_ws by (auto simp: skip_ws_keep)



lemma follow_simps [simp]:
  "follow []" "follow (44 # s)" "follow (10 # s)" "follow (newline_indent l @ s)"
  by (simp_all add: follow_def newline_indent_def is_digit_def)

lemma skip_ws_simps [simp]:
  "skip_ws [] = []" "skip_ws (93 # s) = 93 # s" "skip_ws (125 # s) = 125 # s"
  "skip_ws (44 # s) = 44 # s" "skip_ws (58 # s) = 58 # s" "skip_ws (34 # s) = 34 # s"
  "skip_ws (32 # s) = skip_ws s"
  by (simp_all add: skip_ws_def is_json_ws_def)

lemma scan_once_null: "scan_once (Suc n) (lit ''null'' @ rest) = Scanned JNull rest"
  by (simp add: lit_def)

lemma scan_once_true: "scan_once (Suc n) (lit ''true'' @ rest) = Scanned (JBool True) rest"
  by (simp add: lit_def)

lemma scan_once_false: "scan_once (Suc n) (lit ''false'' @ rest) = Scanned (JBool False) rest"
  by (simp add: lit_def)

lemma scan_once_number:
  assumes "c = 45 \<or> is_digit c" and "match_number (c # r) = Some (num, rest)"
  shows "scan_once (Suc n) (c # r) = Scanned num rest"
proof -
  from assms(1) have "c \<noteq> 34" "c \<noteq> 123" "c \<noteq> 91" "c \<noteq> 110" "c \<noteq> 116" "c \<noteq> 102"
    by (auto simp: is_digit_def)
  then show ?thesis using assms(2) by simp
qed

lemma scan_once_int:
  assumes "follow rest"
  shows "scan_once (Suc n) (str_int i @ rest) = Scanned (JInt i) rest"
proof -
  obtain c cs where s: "str_nat (nat \<bar>i\<bar>) = c # cs"
    using str_nat_not_Nil [of "nat \<bar>i\<bar>"] by (cases "str_nat (nat \<bar>i\<bar>)") auto
  have d: "is_digit c" using str_nat_digits [of "nat \<bar>i\<bar>"] s by simp
  obtain c' r' where e: "str_int i @ rest = c' # r'" and c': "c' = 45 \<or> is_digit c'"
    using s d by (cases "i < 0") (auto simp: str_int_def abs_if)
  from match_number_str_int [OF assms, of i] e
  have "match_number (c' # r') = Some (JInt i, rest)" by simp
  from scan_once_number [OF c' this] e show ?thesis by simp
qed

lemma scan_once_float:
  assumes "float_literal x" and "follow rest"
  shows "scan_once (Suc n) (x @ rest) = Scanned (JFloat x) rest"
proof -
  consider "x = lit ''NaN''" | "x = lit ''Infinity''" | "x = lit ''-Infinity''"
    | "match_number x = Some (JFloat x, [])"
    using assms(1) unfolding float_literal_def by blast
  then show ?thesis
  proof cases
    case 1
    then show ?thesis by (simp add: lit_def match_number_def match_integer_def)
  next
    case 2
    then show ?thesis by (simp add: lit_def match_number_def match_integer_def)
  next
    case 3
    then show ?thesis by (simp add: lit_def match_number_def match_integer_def)
  next
    case 4
    from match_number_start [OF 4] obtain c cs where x: "x = c # cs" and c: "c = 45 \<or> is_digit c"
      by blast
    from match_number_follow [OF assms(2) 4]
    have "match_number (c # cs @ rest) = Some (JFloat x, rest)" unfolding x by simp
    from scan_once_number [OF c this] show ?thesis unfolding x by simp
  qed
qed

lemma scan_once_str: "scan_once (Suc n) (encode_basestring s @ rest) = Scanned (JStr s) rest"
  by (simp add: encode_basestring_def scanstring_escaped)

lemma parse_array_last:
  assumes "\<And>m r. need x0 \<le> m \<Longrightarrow> follow r \<Longrightarrow> scan_once m (iterencode l x0 @ r) = Scanned x0 r"
    and "need x0 \<le> m"
  shows "parse_array (Suc m) (iterencode l x0 @ newline_indent l' @ 93 # rest) = Scanned [x0] rest"
proof -
  have "scan_once m (iterencode l x0 @ newline_indent l' @ 93 # rest)
      = Scanned x0 (newline_indent l' @ 93 # rest)"
    using assms by simp
  then show ?thesis by (simp add: skip_ws_newline_indent)
qed

lemma parse_array_more:
  assumes "\<And>m r. need x0 \<le> m \<Longrightarrow> follow r \<Longrightarrow> scan_once m (iterencode l x0 @ r) = Scanned x0 r"
    and "need x0 \<le> m" and "wf_value x"
    and "parse_array m (iterencode l x @ t) = Scanned (x # xs) rest"
  shows "parse_array (Suc m) (iterencode l x0 @ 44 # newline_indent l @ iterencode l x @ t)
      = Scanned (x0 # x # xs) rest"
proof -
  have "scan_once m (iterencode l x0 @ 44 # newline_indent l @ iterencode l x @ t)
      = Scanned x0 (44 # newline_indent l @ iterencode l x @ t)"
    using assms(1,2) by simp
  moreover have "skip_ws (newline_indent l @ iterencode l x @ t) = iterencode l x @ t"
    using skip_ws_iterencode [OF assms(3)] by (simp add: skip_ws_newline_indent)
  ultimately show ?thesis using assms(4) by simp
qed

lemma parse_object_last:
  assumes "\<And>m r. need v0 \<le> m \<Longrightarrow> follow r \<Longrightarrow> scan_once m (iterencode l v0 @ r) = Scanned v0 r"
    and "need v0 \<le> m" and "wf_value v0"
  shows "parse_object (Suc m)
           (concat (map escape_char k0) @ 34 # lit '': '' @ iterencode l v0
              @ newline_indent l' @ 125 # rest)
      = Scanned [(k0, v0)] rest"
proof -
  have "scan_once m (iterencode l v0 @ newline_indent l' @ 125 # rest)
      = Scanned v0 (newline_indent l' @ 125 # rest)"
    using assms(1,2) by simp
  moreover have "skip_ws (iterencode l v0 @ newline_indent l' @ 125 # rest)
      = iterencode l v0 @ newline_indent l' @ 125 # rest"
    using skip_ws_iterencode [OF assms(3)] by simp
  ultimately show ?thesis
    by (simp add: scanstring_escaped lit_def skip_ws_newline_indent)
qed

lemma parse_object_more:
  assumes "\<And>m r. need v0 \<le> m \<Longrightarrow> follow r \<Longrightarrow> scan_once m (iterencode l v0 @ r) = Scanned v0 r"
    and "need v0 \<le> m" and "wf_value v0"
    and "parse_object m (concat (map escape_char k) @ 34 # t) = Scanned ((k, v) # kvs) rest"
  shows "parse_object (Suc m)
           (concat (map escape_char k0) @ 34 # lit '': '' @ iterencode l v0
              @ 44 # newline_indent l @ encode_basestring k @ t)
      = Scanned ((k0, v0) # (k, v) # kvs) rest"
proof -
  let ?t = "44 # newline_indent l @ encode_basestring k @ t"
  have "scan_once m (iterencode l v0 @ ?t) = Scanned v0 ?t"
    using assms(1,2) by simp
  moreover have "skip_ws (iterencode l v0 @ ?t) = iterencode l v0 @ ?t"
    using skip_ws_iterencode [OF assms(3)] by simp
  moreover have "skip_ws (newline_indent l @ encode_basestring k @ t)
      = 34 # concat (map escape_char k) @ 34 # t"
    by (simp add: skip_ws_newline_indent encode_basestring_def)
  ultimately show ?thesis using assms(4)
    by (simp add: scanstring_escaped lit_def)
qed


lemma scan_iterencode:
  "wf_value v \<longrightarrow> (\<forall>n rest. need v \<le> n \<longrightarrow> follow rest \<longrightarrow>
      scan_once n (iterencode l v @ rest) = Scanned v rest)"
  "wf_list xs \<longrightarrow> (\<forall>x0 n l' rest. wf_value x0 \<longrightarrow>
      (\<forall>m r. need x0 \<le> m \<longrightarrow> follow r \<longrightarrow> scan_once m (iterencode l x0 @ r) = Scanned x0 r) \<longrightarrow>
      Suc (need x0 + need_list xs) \<le> n \<longrightarrow>
      parse_array n (iterencode l x0 @ iterencode_list l xs @ newline_indent l' @ 93 # rest)
        = Scanned (x0 # xs) rest)"
  "wf_dict kvs \<longrightarrow> (\<forall>k0 v0 n l' rest. wf_value v0 \<longrightarrow>
      (\<forall>m r. need v0 \<le> m \<longrightarrow> follow r \<longrightarrow> scan_once m (iterencode l v0 @ r) = Scanned v0 r) \<longrightarrow>
      Suc (need v0 + need_dict kvs) \<le> n \<longrightarrow>
      parse_object n (concat (map escape_char k0) @ 34 # lit '': '' @ iterencode l v0
          @ iterencode_dict l kvs @ newline_indent l' @ 125 # rest)
        = Scanned ((k0, v0) # kvs) rest)"
proof (induction l v and l xs and l kvs rule: iterencode_iterencode_list_iterencode_dict.induct)
  case (1 l)
  show ?case
  proof (intro impI allI)
    fix n rest assume "need JNull \<le> n"
    then obtain m where "n = Suc m" by (cases n) auto
    then show "scan_once n (iterencode l JNull @ rest) = Scanned JNull rest"
      using scan_once_null by simp
  qed
next
  case (2 l b)
  show ?case
  proof (intro impI allI)
    fix n rest assume "need (JBool b) \<le> n"
    then obtain m where "n = Suc m" by (cases n) auto
    then show "scan_once n (iterencode l (JBool b) @ rest) = Scanned (JBool b) rest"
      using scan_once_true scan_once_false by (cases b) simp_all
  qed
next
  case (3 l i)
  show ?case
  proof (intro impI allI)
    fix n rest assume "need (JInt i) \<le> n" and f: "follow rest"
    then obtain m where "n = Suc m" by (cases n) auto
    then show "scan_once n (iterencode l (JInt i) @ rest) = Scanned (JInt i) rest"
      using scan_once_int [OF f] by simp
  qed
next
  case (4 l x)
  show ?case
  proof (intro impI allI)
    fix n rest assume w: "wf_value (JFloat x)" and "need (JFloat x) \<le> n" and f: "follow rest"
    then obtain m where "n = Suc m" by (cases n) auto
    then show "scan_once n (iterencode l (JFloat x) @ rest) = Scanned (JFloat x) rest"
      using scan_once_float [OF _ f, of x] w by simp
  qed
next
  case (5 l s)
  show ?case
  proof (intro impI allI)
    fix n rest assume "need (JStr s) \<le> n"
    then obtain m where "n = Suc m" by (cases n) auto
    then show "scan_once n (iterencode l (JStr s) @ rest) = Scanned (JStr s) rest"
      using scan_once_str by simp
  qed
next
  case (6 l)
  show ?case
  proof (intro impI allI)
    fix n rest assume "need (JArr []) \<le> n"
    then obtain m where "n = Suc m" by (cases n) auto
    then show "scan_once n (iterencode l (JArr []) @ rest) = Scanned (JArr []) rest"
      by (simp add: lit_def)
  qed
next
  case (7 l x xs)
  show ?case
  proof (intro impI allI)
    fix n rest
    assume wf: "wf_value (JArr (x # xs))" and n: "need (JArr (x # xs)) \<le> n"
    from n obtain m where m: "n = Suc m" "Suc (need x + need_list xs) \<le> m"
      by (cases n) auto
    from wf have wfx: "wf_value x" and wfxs: "wf_list xs" by simp_all
    let ?t = "iterencode_list (Suc l) xs @ newline_indent l @ 93 # rest"
    from 7 wfx have px: "\<forall>m r. need x \<le> m \<longrightarrow> follow r \<longrightarrow>
        scan_once m (iterencode (Suc l) x @ r) = Scanned x r" by simp
    from 7(2) wfxs wfx px m(2)
    have pa: "parse_array m (iterencode (Suc l) x @ ?t) = Scanned (x # xs) rest" by blast
    obtain c cs where c: "iterencode (Suc l) x = c # cs" "value_start c"
      using iterencode_start [OF wfx] by blast
    then have "c \<noteq> 93" by (auto simp: value_start_def is_digit_def)
    moreover have "skip_ws (newline_indent (Suc l) @ iterencode (Suc l) x @ ?t) = c # cs @ ?t"
      using skip_ws_iterencode [OF wfx, of "Suc l" ?t] c(1) by (simp add: skip_ws_newline_indent)
    moreover from pa c(1) have "parse_array m (c # cs @ ?t) = Scanned (x # xs) rest" by simp
    ultimately show "scan_once n (iterencode l (JArr (x # xs)) @ rest) = Scanned (JArr (x # xs)) rest"
      unfolding m(1) by simp
  qed
next
  case (8 l)
  show ?case
  proof (intro impI allI)
    fix n rest assume "need (JObj []) \<le> n"
    then obtain m where "n = Suc m" by (cases n) auto
    then show "scan_once n (iterencode l (JObj []) @ rest) = Scanned (JObj []) rest"
      by (simp add: lit_def)
  qed
next
  case (9 l k v kvs)
  show ?case
  proof (intro impI allI)
    fix n rest
    assume wf: "wf_value (JObj ((k, v) # kvs))" and n: "need (JObj ((k, v) # kvs)) \<le> n"
    from n obtain m where m: "n = Suc m" "Suc (need v + need_dict kvs) \<le> m"
      by (cases n) auto
    from wf have wfv: "wf_value v" and wfkvs: "wf_dict kvs"
      and d: "distinct (map fst ((k, v) # kvs))" by simp_all
    let ?t = "lit '': '' @ iterencode (Suc l) v @ iterencode_dict (Suc l) kvs
        @ newline_indent l @ 125 # rest"
    from 9 wfv have pv: "\<forall>m r. need v \<le> m \<longrightarrow> follow r \<longrightarrow>
        scan_once m (iterencode (Suc l) v @ r) = Scanned v r" by simp
    from 9(2) wfkvs wfv pv m(2)
    have po: "parse_object m (concat (map escape_char k) @ 34 # ?t) = Scanned ((k, v) # kvs) rest"
      by blast
    have "skip_ws (newline_indent (Suc l) @ encode_basestring k @ ?t)
        = 34 # concat (map escape_char k) @ 34 # ?t"
      by (simp add: skip_ws_newline_indent encode_basestring_def)
    with po show "scan_once n (iterencode l (JObj ((k, v) # kvs)) @ rest)
        = Scanned (JObj ((k, v) # kvs)) rest"
      unfolding m(1) using dict_of_pairs_distinct [OF d] by simp
  qed
next
  case (10 l)
  show ?case
  proof (intro impI allI)
    fix x0 n l' rest
    assume "wf_value x0"
      and p: "\<forall>m r. need x0 \<le> m \<longrightarrow> follow r \<longrightarrow> scan_once m (iterencode l x0 @ r) = Scanned x0 r"
      and n: "Suc (need x0 + need_list []) \<le> n"
    from n obtain m where m: "n = Suc m" "need x0 \<le> m" by (cases n) auto
    from parse_array_last [of x0 l m l' rest] p m
    show "parse_array n (iterencode l x0 @ iterencode_list l [] @ newline_indent l' @ 93 # rest)
        = Scanned [x0] rest" by simp
  qed
next
  case (11 l x xs)
  show ?case
  proof (intro impI allI)
    fix x0 n l' rest
    assume wf: "wf_list (x # xs)" and "wf_value x0"
      and p: "\<forall>m r. need x0 \<le> m \<longrightarrow> follow r \<longrightarrow> scan_once m (iterencode l x0 @ r) = Scanned x0 r"
      and n: "Suc (need x0 + need_list (x # xs)) \<le> n"
    from n obtain m where m: "n = Suc m" "need x0 \<le> m" "Suc (need x + need_list xs) \<le> m"
      by (cases n) auto
    from wf have wfx: "wf_value x" and wfxs: "wf_list xs" by simp_all
    let ?t = "iterencode_list l xs @ newline_indent l' @ 93 # rest"
    from 11 wfx have px: "\<forall>m r. need x \<le> m \<longrightarrow> follow r \<longrightarrow>
        scan_once m (iterencode l x @ r) = Scanned x r" by simp
    from 11(2) wfxs wfx px m(3)
    have pa: "parse_array m (iterencode l x @ ?t) = Scanned (x # xs) rest" by blast
    from parse_array_more [of x0 l m x ?t xs rest] p m(2) wfx pa
    show "parse_array n (iterencode l x0 @ iterencode_list l (x # xs) @ newline_indent l' @ 93 # rest)
        = Scanned (x0 # x # xs) rest" unfolding m(1) by simp
  qed
next
  case (12 l)
  show ?case
  proof (intro impI allI)
    fix k0 v0 n l' rest
    assume wf: "wf_value v0"
      and p: "\<forall>m r. need v0 \<le> m \<longrightarrow> follow r \<longrightarrow> scan_once m (iterencode l v0 @ r) = Scanned v0 r"
      and n: "Suc (need v0 + need_dict []) \<le> n"
    from n obtain m where m: "n = Suc m" "need v0 \<le> m" by (cases n) auto
    from parse_object_last [of v0 l m k0 l' rest] p m wf
    show "parse_object n (concat (map escape_char k0) @ 34 # lit '': '' @ iterencode l v0
          @ iterencode_dict l [] @ newline_indent l' @ 125 # rest) = Scanned [(k0, v0)] rest"
      by simp
  qed
next
  case (13 l k v kvs)
  show ?case
  proof (intro impI allI)
    fix k0 v0 n l' rest
    assume wf: "wf_dict ((k, v) # kvs)" and wf0: "wf_value v0"
      and p: "\<forall>m r. need v0 \<le> m \<longrightarrow> follow r \<longrightarrow> scan_once m (iterencode l v0 @ r) = Scanned v0 r"
      and n: "Suc (need v0 + need_dict ((k, v) # kvs)) \<le> n"
    from n obtain m where m: "n = Suc m" "need v0 \<le> m" "Suc (need v + need_dict kvs) \<le> m"
      by (cases n) auto
    from wf have wfv: "wf_value v" and wfkvs: "wf_dict kvs" by simp_all
    let ?t = "lit '': '' @ iterencode l v @ iterencode_dict l kvs @ newline_indent l' @ 125 # rest"
    from 13 wfv have pv: "\<forall>m r. need v \<le> m \<longrightarrow> follow r \<longrightarrow>
        scan_once m (iterencode l v @ r) = Scanned v r" by simp
    from 13(2) wfkvs wfv pv m(3)
    have po: "parse_object m (concat (map escape_char k) @ 34 # ?t) = Scanned ((k, v) # kvs) rest"
      by blast
    from parse_object_more [of v0 l m k ?t v kvs rest k0] p m(2) wf0 po
    show "parse_object n (concat (map escape_char k0) @ 34 # lit '': '' @ iterencode l v0
          @ iterencode_dict l ((k, v) # kvs) @ newline_indent l' @ 125 # rest)
        = Scanned ((k0, v0) # (k, v) # kvs) rest"
      unfolding m(1) by simp
  qed
qed


lemma need_le_length:
  "wf_value v \<longrightarrow> need v \<le> length (iterencode l v)"
  "need_list xs \<le> length (iterencode_list l xs) \<or> \<not> wf_list xs"
  "need_dict kvs \<le> length (iterencode_dict l kvs) \<or> \<not> wf_dict kvs"
proof (induction l v and l xs and l kvs rule: iterencode_iterencode_list_iterencode_dict.induct)
  case (3 l i)
  have "str_nat (nat \<bar>i\<bar>) \<noteq> []" by (rule str_nat_not_Nil)
  then have "1 \<le> length (str_int i)"
    by (cases "str_nat (nat \<bar>i\<bar>)") (auto simp: str_int_def abs_if)
  then show ?case by simp
next
  case (4 l x)
  show ?case
  proof
    assume "wf_value (JFloat x)"
    from iterencode_start [OF this, of l] show "need (JFloat x) \<le> length (iterencode l (JFloat x))"
      by auto
  qed
qed (auto simp: lit_def encode_basestring_def newline_indent_def)

lemma json_loads_json_dump: "wf_value v \<Longrightarrow> json_loads (json_dump v) = Inr v"
proof -
  assume wf: "wf_value v"
  let ?s = "iterencode 0 v"
  obtain c cs where c: "?s = c # cs" "value_start c"
    using iterencode_start [OF wf] by blast
  then have "c \<noteq> 0xFEFF" by (auto simp: value_start_def is_digit_def)
  with c have bom: "take 1 ?s \<noteq> [0xFEFF]" by simp
  have sk: "skip_ws ?s = ?s" using skip_ws_iterencode [OF wf, of 0 "[]"] by simp
  have "need v \<le> 2 * length ?s + 1" using need_le_length(1) [of v 0] wf by simp
  with scan_iterencode(1) [of v 0] wf follow_simps(1)
  have "scan_once (2 * length ?s + 1) (?s @ []) = Scanned v []" by blast
  then show ?thesis using bom sk by (simp add: json_loads_def json_dump_def)
qed

section \<open>Strings, dicts and the loop of the form\<close>


lemma str_split_not_Nil: "str_split sep s \<noteq> []"
  by (induction s) (auto split: list.splits)

lemma str_join_Cons: "ws \<noteq> [] \<Longrightarrow> str_join sep (w # ws) = w @ sep # str_join sep ws"
  by (cases ws) simp_all

lemma str_join_split: "str_join sep (str_split sep s) = s"
proof (induction s)
  case Nil
  show ?case by simp
next
  case (Cons c cs)
  obtain w ws where s: "str_split sep cs = w # ws"
    using str_split_not_Nil [of sep cs] by (cases "str_split sep cs") auto
  show ?case
  proof (cases "c = sep")
    case True
    with Cons s show ?thesis by (simp add: str_join_Cons)
  next
    case False
    with Cons s show ?thesis by (cases ws) simp_all
  qed
qed

lemma str_split_no_sep: "\<forall>seg \<in> set (str_split sep s). sep \<notin> set seg"
proof (induction s)
  case Nil
  show ?case by simp
next
  case (Cons c cs)
  obtain w ws where s: "str_split sep cs = w # ws"
    using str_split_not_Nil [of sep cs] by (cases "str_split sep cs") auto
  with Cons show ?case by (cases "c = sep") auto
qed

lemma length_str_split: "length (str_split sep s) = Suc (length (filter (\<lambda>c. c = sep) s))"
proof (induction s)
  case Nil
  show ?case by simp
next
  case (Cons c cs)
  obtain w ws where s: "str_split sep cs = w # ws"
    using str_split_not_Nil [of sep cs] by (cases "str_split sep cs") auto
  with Cons show ?case by (cases "c = sep") auto
qed

lemma lista_de_filter_map:
  "lista_de texto = filter (\<lambda>s. s \<noteq> []) (map str_strip (str_split 44 texto))"
  by (simp add: lista_de_def filter_map comp_def)

lemma str_strip_decompose:
  "\<exists>l r. s = l @ str_strip s @ r \<and> list_all isspace l \<and> list_all isspace r"
proof -
  let ?t = "dropWhile isspace s"
  have "?t = rev (dropWhile isspace (rev ?t)) @ rev (takeWhile isspace (rev ?t))"
    by (metis rev_append rev_rev_ident takeWhile_dropWhile_id)
  then have t: "?t = str_strip s @ rev (takeWhile isspace (rev ?t))"
    by (simp add: str_strip_def)
  have "s = takeWhile isspace s @ ?t" by simp
  with t have "s = takeWhile isspace s @ str_strip s @ rev (takeWhile isspace (rev ?t))" by simp
  moreover have "list_all isspace (takeWhile isspace s)"
    by (simp add: list_all_iff) (meson set_takeWhileD)
  moreover have "list_all isspace (rev (takeWhile isspace (rev ?t)))"
    by (simp add: list_all_iff) (meson set_takeWhileD)
  ultimately show ?thesis by blast
qed

lemma str_strip_ends:
  assumes "str_strip s \<noteq> []"
  shows "\<not> isspace (hd (str_strip s)) \<and> \<not> isspace (last (str_strip s))"
proof -
  let ?t = "dropWhile isspace s"
  let ?u = "dropWhile isspace (rev ?t)"
  from assms have u: "?u \<noteq> []" unfolding str_strip_def rev_is_Nil_conv .
  then have "\<not> isspace (hd ?u)" by (rule hd_dropWhile)
  then have l: "\<not> isspace (last (str_strip s))" using u by (simp add: str_strip_def last_rev)
  from u have t: "?t \<noteq> []" by (metis dropWhile.simps(1) rev.simps(1))
  then have ht: "\<not> isspace (hd ?t)" by (rule hd_dropWhile)
  have "?t = rev ?u @ rev (takeWhile isspace (rev ?t))"
    by (metis rev_append rev_rev_ident takeWhile_dropWhile_id)
  then have "?t = str_strip s @ rev (takeWhile isspace (rev ?t))" by (simp add: str_strip_def)
  then have "hd ?t = hd (str_strip s)" using assms by (metis hd_append2)
  with ht l show ?thesis by simp
qed

lemma lista_de_ejemplo: "lista_de (lit ''a, b,,c '') = [lit ''a'', lit ''b'', lit ''c'']"
  by (simp add: lista_de_def lit_def str_strip_def isspace_def)

lemma map_of_dict_set: "map_of (dict_set d k v) = (map_of d)(k \<mapsto> v)"
  by (induction d) (auto simp: fun_eq_iff)

lemma keys_dict_set: "fst ` set (dict_set d k v) = insert k (fst ` set d)"
  by (simp add: dom_map_of_conv_image_fst [symmetric] map_of_dict_set)

lemma distinct_dict_set: "distinct (map fst d) \<Longrightarrow> distinct (map fst (dict_set d k v))"
proof (induction d)
  case Nil
  show ?case by simp
next
  case (Cons p d)
  obtain k' v' where p: "p = (k', v')" by (cases p)
  show ?case
  proof (cases "k' = k")
    case True
    with Cons.prems p show ?thesis by simp
  next
    case False
    from Cons.prems p have "k' \<notin> fst ` set d" by simp
    with False have "k' \<notin> fst ` set (dict_set d k v)" by (simp add: keys_dict_set)
    with Cons False p show ?thesis by simp
  qed
qed

lemma filter_key_absent: "k \<notin> fst ` set d \<Longrightarrow> filter (\<lambda>(k', m). k' = k) d = []"
  by (induction d) auto

lemma filter_key_distinct:
  "distinct (map fst d) \<Longrightarrow> map_of d k = Some v \<Longrightarrow> filter (\<lambda>(k', m). k' = k) d = [(k, v)]"
proof (induction d)
  case Nil
  then show ?case by simp
next
  case (Cons p d)
  obtain k' v' where p: "p = (k', v')" by (cases p)
  show ?case
  proof (cases "k' = k")
    case True
    with Cons.prems p have "v' = v" and "k \<notin> fst ` set d" by auto
    then have "filter (\<lambda>(k', m). k' = k) d = []" by (simp add: filter_key_absent)
    with True p \<open>v' = v\<close> show ?thesis by simp
  next
    case False
    with Cons p show ?thesis by simp
  qed
qed

lemma filter_key_None: "map_of d k = None \<Longrightarrow> filter (\<lambda>(k', m). k' = k) d = []"
  by (simp add: filter_key_absent map_of_eq_None_iff)


lemma validar_regex_other:
  assumes "validar_regex e self k valor regex = Inr (ok, self')" and "c \<noteq> k"
  shows "map_of (errores self') c = map_of (errores self) c \<and> data self' = data self"
  using assms
  by (auto simp: validar_regex_def map_of_dict_set split: json.splits sum.splits if_splits)

lemma validar_regex_distinct:
  assumes "validar_regex e self k valor regex = Inr (ok, self')"
    and "distinct (map fst (errores self))"
  shows "distinct (map fst (errores self'))"
  using assms
  by (auto simp: validar_regex_def distinct_dict_set split: json.splits sum.splits if_splits)

lemma render_campo_other:
  assumes "render_campo e st (k, opciones) = Inr st'" and "c \<noteq> k"
  shows "map_of (data (fst st')) c = map_of (data (fst st)) c
       \<and> map_of (errores (fst st')) c = map_of (errores (fst st)) c"
proof -
  obtain self scr where st: "st = (self, scr)" by (cases st)
  from assms(1) obtain opts where o: "opciones = JObj opts"
    unfolding st by (cases opciones) (simp_all add: render_campo_def)
  let ?tipo = "dict_get opts (lit ''tipo'') JNull"
  let ?ph = "dict_get opts (lit ''placeholder'') (JStr [])"
  let ?regex = "dict_get opts (lit ''regex'') JNull"
  let ?valor = "text_input e k ?ph"
  show ?thesis
  proof (cases "?tipo = JStr (lit ''texto'')")
    case True
    show ?thesis
    proof (cases "?valor \<noteq> [] \<and> truthy ?regex")
      case v: True
      with True assms(1) obtain ok self1 where
        r: "validar_regex e self k ?valor ?regex = Inr (ok, self1)"
        and s': "st' = (self1\<lparr>data := dict_set (data self1) k (JStr ?valor)\<rparr>, scr)"
        unfolding st o by (auto simp: render_campo_def Let_def split: sum.splits)
      from validar_regex_other [OF r assms(2)] s' assms(2) show ?thesis
        unfolding st by (simp add: map_of_dict_set)
    next
      case v: False
      with True assms(1) have "st' = (self\<lparr>data := dict_set (data self) k (JStr ?valor)\<rparr>, scr)"
        unfolding st o by (auto simp: render_campo_def Let_def)
      with assms(2) show ?thesis unfolding st by (simp add: map_of_dict_set)
    qed
  next
    case False
    with assms show ?thesis unfolding st o
      by (auto simp: render_campo_def Let_def map_of_dict_set split: if_splits)
  qed
qed

lemma render_campo_distinct:
  assumes "render_campo e st (k, opciones) = Inr st'"
    and "distinct (map fst (errores (fst st)))"
  shows "distinct (map fst (errores (fst st')))"
proof -
  obtain self scr where st: "st = (self, scr)" by (cases st)
  from assms(1) obtain opts where o: "opciones = JObj opts"
    unfolding st by (cases opciones) (simp_all add: render_campo_def)
  let ?tipo = "dict_get opts (lit ''tipo'') JNull"
  let ?ph = "dict_get opts (lit ''placeholder'') (JStr [])"
  let ?regex = "dict_get opts (lit ''regex'') JNull"
  let ?valor = "text_input e k ?ph"
  show ?thesis
  proof (cases "?tipo = JStr (lit ''texto'')")
    case True
    show ?thesis
    proof (cases "?valor \<noteq> [] \<and> truthy ?regex")
      case v: True
      with True assms(1) obtain ok self1 where
        r: "validar_regex e self k ?valor ?regex = Inr (ok, self1)"
        and s': "st' = (self1\<lparr>data := dict_set (data self1) k (JStr ?valor)\<rparr>, scr)"
        unfolding st o by (auto simp: render_campo_def Let_def split: sum.splits)
      from validar_regex_distinct [OF r] assms(2) s' show ?thesis unfolding st by simp
    next
      case v: False
      with True assms(1) have "st' = (self\<lparr>data := dict_set (data self) k (JStr ?valor)\<rparr>, scr)"
        unfolding st o by (auto simp: render_campo_def Let_def)
      with assms(2) show ?thesis unfolding st by simp
    qed
  next
    case False
    with assms show ?thesis unfolding st o
      by (auto simp: render_campo_def Let_def split: if_splits)
  qed
qed

lemma render_campos_other:
  assumes "render_campos e st items = Inr st'" and "c \<notin> fst ` set items"
  shows "map_of (data (fst st')) c = map_of (data (fst st)) c
       \<and> map_of (errores (fst st')) c = map_of (errores (fst st)) c"
  using assms
proof (induction items arbitrary: st)
  case Nil
  then show ?case by simp
next
  case (Cons item items)
  obtain k opciones where i: "item = (k, opciones)" by (cases item)
  from Cons.prems(1) obtain st1 where
    a: "render_campo e st (k, opciones) = Inr st1" and b: "render_campos e st1 items = Inr st'"
    unfolding i by (auto split: sum.splits)
  from Cons.prems(2) have "c \<noteq> k" and "c \<notin> fst ` set items" unfolding i by auto
  with render_campo_other [OF a] Cons.IH [OF b] show ?case by simp
qed

lemma render_campos_distinct:
  assumes "render_campos e st items = Inr st'" and "distinct (map fst (errores (fst st)))"
  shows "distinct (map fst (errores (fst st')))"
  using assms
proof (induction items arbitrary: st)
  case Nil
  then show ?case by simp
next
  case (Cons item items)
  obtain k opciones where i: "item = (k, opciones)" by (cases item)
  from Cons.prems(1) obtain st1 where
    a: "render_campo e st (k, opciones) = Inr st1" and b: "render_campos e st1 items = Inr st'"
    unfolding i by (auto split: sum.splits)
  from render_campo_distinct [OF a Cons.prems(2)] Cons.IH [OF b] show ?case by simp
qed

lemma render_campos_at:
  assumes "render_campos e st items = Inr st'"
    and "distinct (map fst items)" and "(c, opciones) \<in> set items"
    and "distinct (map fst (errores (fst st)))"
  shows "\<exists>st0 st1. render_campo e st0 (c, opciones) = Inr st1
           \<and> map_of (errores (fst st0)) c = map_of (errores (fst st)) c
           \<and> distinct (map fst (errores (fst st0)))
           \<and> map_of (data (fst st')) c = map_of (data (fst st1)) c
           \<and> map_of (errores (fst st')) c = map_of (errores (fst st1)) c"
  using assms
proof (induction items arbitrary: st)
  case Nil
  then show ?case by simp
next
  case (Cons item items)
  obtain k o' where i: "item = (k, o')" by (cases item)
  from Cons.prems(1) obtain st1 where
    a: "render_campo e st (k, o') = Inr st1" and b: "render_campos e st1 items = Inr st'"
    unfolding i by (auto split: sum.splits)
  show ?case
  proof (cases "k = c")
    case True
    with Cons.prems(2,3) have "o' = opciones" and "c \<notin> fst ` set items"
      unfolding i by (auto simp: image_iff)
    with render_campos_other [OF b, of c] a True Cons.prems(4) show ?thesis by blast
  next
    case False
    with Cons.prems(3) have m: "(c, opciones) \<in> set items" unfolding i by auto
    from Cons.prems(2) have d: "distinct (map fst items)" by simp
    from False have "c \<noteq> k" by simp
    from render_campo_other [OF a this]
    have e1: "map_of (errores (fst st1)) c = map_of (errores (fst st)) c" by simp
    from Cons.IH [OF b d m render_campo_distinct [OF a Cons.prems(4)]] e1
    show ?thesis by auto
  qed
qed

section \<open>What the decoder returns\<close>

















section \<open>The decoder accepts every JSON text\<close>




lemma rfc_ws_skip: "rfc_ws w \<Longrightarrow> skip_ws (w @ s) = skip_ws s"
  by (induction w) (auto simp: rfc_ws_def skip_ws_def is_json_ws_def)




lemma takeWhile_digits_end:
  "list_all is_digit ds \<Longrightarrow> rest = [] \<or> \<not> is_digit (hd rest) \<Longrightarrow> takeWhile is_digit (ds @ rest) = ds"
  by (induction ds) (auto simp: neq_Nil_conv intro: takeWhile_eq_Nil_iff [THEN iffD2])

lemma rfc_digits_is_digit: "rfc_digits ds \<Longrightarrow> ds \<noteq> [] \<and> list_all is_digit ds"
  by (simp add: rfc_digits_def is_digit_def [abs_def])

lemma match_integer_rfc:
  assumes "rfc_int i" and "rest = [] \<or> \<not> is_digit (hd rest)"
  shows "match_integer (i @ rest) = i \<and> i \<noteq> [] \<and> is_digit (hd i)"
proof (cases "i = [48]")
  case True
  then show ?thesis by (simp add: match_integer_def is_digit_def)
next
  case False
  with assms(1) have d: "rfc_digits i" and h: "hd i \<noteq> 48" by (auto simp: rfc_int_def)
  from rfc_digits_is_digit [OF d] obtain c ds where i: "i = c # ds" and l: "list_all is_digit (c # ds)"
    by (cases i) auto
  from l h i have c: "49 \<le> c \<and> c \<le> 57" by (auto simp: is_digit_def)
  from takeWhile_digits_end [OF l assms(2)] have "takeWhile is_digit ((c # ds) @ rest) = c # ds" .
  with c show ?thesis unfolding i by (simp add: match_integer_def is_digit_def)
qed

lemma match_frac_rfc:
  assumes "f = [] \<or> rfc_frac f" and "rest = [] \<or> \<not> is_digit (hd rest) \<and> hd rest \<noteq> 46"
  shows "match_frac (f @ rest) = f"
proof (cases f)
  case Nil
  with assms(2) show ?thesis by (cases rest) (auto simp: match_frac_def)
next
  case (Cons c ds)
  with assms(1) have c: "c = 46" and d: "rfc_digits ds" by (auto simp: rfc_frac_def)
  from rfc_digits_is_digit [OF d] have n: "ds \<noteq> []" and l: "list_all is_digit ds" by auto
  from assms(2) have "rest = [] \<or> \<not> is_digit (hd rest)" by blast
  from takeWhile_digits_end [OF l this] n show ?thesis unfolding Cons c
    by (simp add: match_frac_def)
qed

lemma match_exp_rfc:
  assumes "e = [] \<or> rfc_exp e"
  shows "match_exp e = e"
proof (cases e)
  case Nil
  then show ?thesis by (simp add: match_exp_def)
next
  case (Cons c r)
  with assms have c: "c = 101 \<or> c = 69" by (auto simp: rfc_exp_def)
  from Cons assms obtain d ds where r: "r = d # ds"
    and k: "if d = 43 \<or> d = 45 then rfc_digits ds else rfc_digits r"
    by (cases r) (auto simp: rfc_exp_def)
  show ?thesis
  proof (cases "d = 43 \<or> d = 45")
    case True
    with k have "rfc_digits ds" by simp
    from rfc_digits_is_digit [OF this] have n: "ds \<noteq> []" and l: "list_all is_digit ds" by auto
    from takeWhile_digits_end [OF l, of "[]"] have t: "takeWhile is_digit ds = ds" by simp
    from n c True show ?thesis unfolding Cons r by (simp add: match_exp_def t)
  next
    case False
    with k have "rfc_digits r" by simp
    from rfc_digits_is_digit [OF this] have n: "r \<noteq> []" and l: "list_all is_digit r" by auto
    from takeWhile_digits_end [OF l, of "[]"] have t: "takeWhile is_digit (d # ds) = d # ds"
      unfolding r by simp
    from c False show ?thesis unfolding Cons r by (simp add: match_exp_def t del: takeWhile.simps)
  qed
qed

lemma rfc_frac_hd: "rfc_frac f \<Longrightarrow> \<exists>ds. f = 46 # ds"
  by (cases f) (auto simp: rfc_frac_def)

lemma rfc_exp_hd: "rfc_exp e \<Longrightarrow> \<exists>r. e = 101 # r \<or> e = 69 # r"
  by (cases e) (auto simp: rfc_exp_def)

lemma match_number_rfc:
  assumes "rfc_number s"
  shows "\<exists>v. match_number s = Some (v, []) \<and> (\<exists>c cs. s = c # cs \<and> (c = 45 \<or> is_digit c))"
  using assms
proof (cases rule: rfc_number.cases)
  case (1 sign i f e)
  have fe: "f @ e = [] \<or> \<not> is_digit (hd (f @ e))"
    using 1(4,5) rfc_frac_hd [of f] rfc_exp_hd [of e] by (auto simp: is_digit_def)
  have e0: "e = [] \<or> \<not> is_digit (hd e) \<and> hd e \<noteq> 46"
    using 1(5) rfc_exp_hd [of e] by (auto simp: is_digit_def)
  from match_integer_rfc [OF 1(3) fe]
  have mi: "match_integer (i @ f @ e) = i" and i0: "i \<noteq> []" and ih: "is_digit (hd i)" by auto
  from match_frac_rfc [OF 1(4) e0] have mf: "match_frac (f @ e) = f" .
  from match_exp_rfc [OF 1(5)] have me: "match_exp e = e" .
  from i0 obtain c cs where i: "i = c # cs" by (cases i) auto
  from ih i have c45: "c \<noteq> 45" by (auto simp: is_digit_def)
  have sg: "(case sign @ i @ f @ e of [] \<Rightarrow> [] | c # r \<Rightarrow> if c = 45 then [45] else []) = sign"
    using 1(2) i c45 by auto
  have d1: "drop (length sign) (sign @ i @ f @ e) = i @ f @ e" by simp
  have "match_number (sign @ i @ f @ e) =
      (if f \<noteq> [] \<or> e \<noteq> [] then Some (JFloat (sign @ i @ f @ e), [])
       else Some (JInt (if sign = [] then int (nat_of_digits i) else - int (nat_of_digits i)), []))"
    unfolding match_number_def Let_def sg d1 mi using i0 by (simp add: mf me)
  moreover have "\<exists>c cs. sign @ i @ f @ e = c # cs \<and> (c = 45 \<or> is_digit c)"
    using 1(2) i ih by auto
  ultimately show ?thesis unfolding 1(1) by auto
qed









lemma json_value_start:
  assumes "json_value ext v"
  shows "\<exists>c cs. v = c # cs \<and> value_start c"
  using assms
proof (cases rule: json_value.cases)
  case number
  with match_number_rfc [of v] show ?thesis by (auto simp: value_start_def)
qed (simp_all add: lit_def value_start_def)

lemma json_value_skip: "json_value ext v \<Longrightarrow> skip_ws (v @ s) = v @ s"
  using json_value_start [of ext v] value_start_not_ws by (auto simp: skip_ws_keep)

lemma json_value_length: "json_value ext v \<Longrightarrow> 0 < length v"
  using json_value_start [of ext v] by auto












section \<open>The decoder accepts nothing else\<close>





















lemma json_value_start_strict:
  assumes "json_value False v"
  shows "\<exists>c cs. v = c # cs \<and> c \<noteq> 78"
  using assms
proof (cases rule: json_value.cases)
  case number
  with match_number_rfc [of v] show ?thesis by (auto simp: is_digit_def)
qed (simp_all add: lit_def)

lemma valid_json_start:
  assumes "valid_json s"
  shows "\<exists>c r. skip_ws s = c # r \<and> c \<noteq> 78"
proof -
  from assms obtain w1 v w2 where s: "s = w1 @ v @ w2" and w: "rfc_ws w1"
    and v: "json_value False v" unfolding valid_json_def json_text_def by blast
  have "skip_ws s = v @ w2" unfolding s using w v by (simp add: rfc_ws_skip json_value_skip)
  with json_value_start_strict [OF v] show ?thesis by auto
qed

section \<open>The history store\<close>


lemma wf_list_append: "wf_list (xs @ ys) = (wf_list xs \<and> wf_list ys)"
  by (induction xs) simp_all

lemma wf_list_take: "wf_list xs \<Longrightarrow> wf_list (take n xs)"
  by (induction xs arbitrary: n) (simp_all add: take_Cons split: nat.splits)

lemma wf_list_drop: "wf_list xs \<Longrightarrow> wf_list (drop n xs)"
  by (induction xs arbitrary: n) (simp_all add: drop_Cons split: nat.splits)

lemma wf_list_strings: "list_all (\<lambda>x. case x of JStr s \<Rightarrow> True | _ \<Rightarrow> False) xs \<Longrightarrow> wf_list xs"
  by (induction xs) (auto split: json.splits)

lemma is_field_value_wf: "is_field_value x \<Longrightarrow> wf_value x"
  by (cases x) (simp_all add: wf_list_strings)

lemma wf_dict_fields: "list_all (\<lambda>(k, x). is_field_value x) d \<Longrightarrow> wf_dict d"
  by (induction d) (auto simp: is_field_value_wf)

lemma is_submission_wf: "is_submission v \<Longrightarrow> wf_value v"
  by (cases v) (simp_all add: is_submission_def wf_dict_fields)

lemma wf_list_submissions: "list_all is_submission log \<Longrightarrow> wf_list log"
  by (induction log) (simp_all add: is_submission_wf)

lemma leer_escribir:
  "wf_value historial \<Longrightarrow> leer_historial (escribir_historial fs path historial) path = Inr historial"
  by (simp add: leer_historial_def escribir_historial_def json_loads_json_dump)

lemma escribir_other: "p \<noteq> path \<Longrightarrow> escribir_historial fs path historial p = fs p"
  by (simp add: escribir_historial_def)

lemma guardar_leer:
  "guardar_historial self fs =
     (case leer_historial fs (historial_path self) of
        Inl ex \<Rightarrow> Inl ex
      | Inr (JArr historial) \<Rightarrow>
          Inr (escribir_historial fs (historial_path self) (JArr (historial @ [JObj (data self)])))
      | Inr _ \<Rightarrow> Inl AttributeError)"
  by (simp add: guardar_historial_def leer_historial_def
      split: option.splits sum.splits py_exception.splits json.splits)

text \<open>
  Claim C3. Whatever the log is before (the file missing, not JSON, or a list),
  \<open>guardar_historial\<close> followed by the load of \<open>mostrar_historial\<close> yields a log
  whose last element is the appended Submission and whose length is one more than
  the length before.
\<close>

theorem append_then_list:
  assumes "leer_historial fs (historial_path self) = Inr (JArr old)"
    and "wf_list old" and "wf_value (JObj (data self))"
  shows "\<exists>fs' new. guardar_historial self fs = Inr fs'
           \<and> leer_historial fs' (historial_path self) = Inr (JArr new)
           \<and> new \<noteq> [] \<and> last new = JObj (data self) \<and> length new = length old + 1"
proof -
  let ?new = "old @ [JObj (data self)]"
  let ?fs' = "escribir_historial fs (historial_path self) (JArr ?new)"
  have "guardar_historial self fs = Inr ?fs'"
    using assms(1) by (simp add: guardar_leer)
  moreover have "wf_value (JArr ?new)" using assms(2,3) by (simp add: wf_list_append)
  then have "leer_historial ?fs' (historial_path self) = Inr (JArr ?new)" by (rule leer_escribir)
  ultimately show ?thesis by force
qed

theorem append_then_list_witness:
  "leer_historial Map.empty (historial_path \<lparr>schema_path = lit ''esquema.json'', historial_path = lit ''historial.json'',
       schema = JObj [], data = [(lit ''nombre'', JStr (lit ''Ana'')), (lit ''edad'', JInt 30)], errores = []\<rparr>) = Inr (JArr [])
   \<and> wf_list [] \<and> wf_value (JObj [(lit ''nombre'', JStr (lit ''Ana'')), (lit ''edad'', JInt 30)])
   \<and> (\<exists>fs' new. guardar_historial \<lparr>schema_path = lit ''esquema.json'', historial_path = lit ''historial.json'',
       schema = JObj [], data = [(lit ''nombre'', JStr (lit ''Ana'')), (lit ''edad'', JInt 30)], errores = []\<rparr> Map.empty = Inr fs'
           \<and> leer_historial fs' (lit ''historial.json'') = Inr (JArr new)
           \<and> new \<noteq> [] \<and> last new = JObj [(lit ''nombre'', JStr (lit ''Ana'')), (lit ''edad'', JInt 30)] \<and> length new = 1)"
proof -
  let ?self = "\<lparr>schema_path = lit ''esquema.json'', historial_path = lit ''historial.json'',
       schema = JObj [], data = [(lit ''nombre'', JStr (lit ''Ana'')), (lit ''edad'', JInt 30)], errores = []\<rparr>"
  have h1: "leer_historial Map.empty (historial_path ?self) = Inr (JArr [])"
    by (simp add: leer_historial_def)
  have h2: "wf_list []" by simp
  have h3: "wf_value (JObj (data ?self))" by (simp add: lit_def)
  from append_then_list [OF h1 h2 h3] h1 h3 show ?thesis by simp
qed

text \<open>
  Claim C9. When the history file holds a JSON list, \<open>guardar_historial\<close> rewrites it
  as the old list with the Submission added at the end: every entry stored before
  is still there, unchanged and at its index, and no other file is touched.
\<close>

theorem append_keeps_entries:
  assumes "fs (historial_path self) = Some content"
    and "json_loads content = Inr (JArr old)"
    and "wf_list old" and "wf_value (JObj (data self))"
  shows "\<exists>fs'. guardar_historial self fs = Inr fs'
           \<and> leer_historial fs' (historial_path self) = Inr (JArr (old @ [JObj (data self)]))
           \<and> (\<forall>i < length old. (old @ [JObj (data self)]) ! i = old ! i)
           \<and> (\<forall>p. p \<noteq> historial_path self \<longrightarrow> fs' p = fs p)"
proof -
  let ?new = "old @ [JObj (data self)]"
  let ?fs' = "escribir_historial fs (historial_path self) (JArr ?new)"
  have "leer_historial fs (historial_path self) = Inr (JArr old)"
    using assms(1,2) by (simp add: leer_historial_def)
  then have "guardar_historial self fs = Inr ?fs'" by (simp add: guardar_leer)
  moreover have "wf_value (JArr ?new)" using assms(3,4) by (simp add: wf_list_append)
  then have "leer_historial ?fs' (historial_path self) = Inr (JArr ?new)" by (rule leer_escribir)
  moreover have "\<forall>i < length old. ?new ! i = old ! i" by (simp add: nth_append)
  moreover have "\<forall>p. p \<noteq> historial_path self \<longrightarrow> ?fs' p = fs p" by (simp add: escribir_other)
  ultimately show ?thesis by blast
qed


text \<open>
  Claim C4. With the history file absent or holding a JSON list \<open>xs\<close>:
  for \<open>0 \<le> i < len(xs)\<close>, \<open>eliminar_entrada_historial\<close> followed by the load of
  \<open>mostrar_historial\<close> yields the list without the entry at position \<open>i\<close> (the
  entries before it keep their index, those after it move down by one), of length
  \<open>len(xs) - 1\<close>; for any other \<open>i\<close> nothing changes: no file is written and the
  script is not rerun.
\<close>

theorem delete_then_list:
  assumes "files w (historial_path self) = None \<and> xs = []
           \<or> (\<exists>content. files w (historial_path self) = Some content \<and> json_loads content = Inr (JArr xs))"
    and "wf_list xs"
  shows "(0 \<le> i \<and> i < int (length xs) \<longrightarrow>
            (\<exists>w' new. eliminar_entrada_historial self w i = Inr w'
               \<and> leer_historial (files w') (historial_path self) = Inr (JArr new)
               \<and> new = take (nat i) xs @ drop (Suc (nat i)) xs
               \<and> length new = length xs - 1
               \<and> (\<forall>j < length new. new ! j = (if j < nat i then xs ! j else xs ! Suc j))))
       \<and> (\<not> (0 \<le> i \<and> i < int (length xs)) \<longrightarrow> eliminar_entrada_historial self w i = Inr w)"
proof (intro conjI impI)
  assume r: "0 \<le> i \<and> i < int (length xs)"
  then have "xs \<noteq> []" by auto
  with assms(1) obtain content where c: "files w (historial_path self) = Some content"
    "json_loads content = Inr (JArr xs)" by blast
  let ?new = "take (nat i) xs @ drop (Suc (nat i)) xs"
  let ?w' = "w\<lparr>files := escribir_historial (files w) (historial_path self) (JArr ?new), rerun := True\<rparr>"
  have e: "eliminar_entrada_historial self w i = Inr ?w'"
    using c r by (simp add: eliminar_entrada_historial_def py_len_def)
  have "wf_value (JArr ?new)" using assms(2) by (simp add: wf_list_append wf_list_take wf_list_drop)
  then have l: "leer_historial (files ?w') (historial_path self) = Inr (JArr ?new)"
    by (simp add: leer_escribir)
  have n: "nat i < length xs" using r by linarith
  then have len: "length ?new = length xs - 1" by simp
  have "\<forall>j < length ?new. ?new ! j = (if j < nat i then xs ! j else xs ! Suc j)"
  proof (intro allI impI)
    fix j assume "j < length ?new"
    with n show "?new ! j = (if j < nat i then xs ! j else xs ! Suc j)"
      by (auto simp: nth_append min_def)
  qed
  with e l len show "\<exists>w' new. eliminar_entrada_historial self w i = Inr w'
               \<and> leer_historial (files w') (historial_path self) = Inr (JArr new)
               \<and> new = take (nat i) xs @ drop (Suc (nat i)) xs
               \<and> length new = length xs - 1
               \<and> (\<forall>j < length new. new ! j = (if j < nat i then xs ! j else xs ! Suc j))"
    by blast
next
  assume r: "\<not> (0 \<le> i \<and> i < int (length xs))"
  from assms(1) show "eliminar_entrada_historial self w i = Inr w"
  proof
    assume "files w (historial_path self) = None \<and> xs = []"
    then show ?thesis by (simp add: eliminar_entrada_historial_def)
  next
    assume "\<exists>content. files w (historial_path self) = Some content \<and> json_loads content = Inr (JArr xs)"
    then show ?thesis using r by (auto simp: eliminar_entrada_historial_def py_len_def)
  qed
qed

text \<open>
  Claim C8. A list of Submissions (values of the four kinds: string, integer,
  boolean, list of strings) that is dumped into the history file and loaded again
  is the same list: same entries, same order, same keys in the same order, same
  values of the same types. Code points outside ASCII are written as themselves;
  the witness gives the text of the file, with its indentation of two spaces.
\<close>

theorem historial_round_trip:
  assumes "list_all is_submission log"
  shows "leer_historial (escribir_historial fs path (JArr log)) path = Inr (JArr log)
       \<and> (\<forall>c \<ge> 128. escape_char c = [c])"
proof -
  have "wf_value (JArr log)" using assms by (simp add: wf_list_submissions)
  then have "leer_historial (escribir_historial fs path (JArr log)) path = Inr (JArr log)"
    by (rule leer_escribir)
  moreover have "\<forall>c \<ge> 128. escape_char c = [c]" by (simp add: escape_char_def)
  ultimately show ?thesis by simp
qed


lemma str_nat_numeral_simps:
  "str_nat 0 = [48]" "str_nat 30 = [51, 48]"
  by (simp_all add: str_nat.simps [of 0] str_nat.simps [of 30] str_nat.simps [of 3])

lemma newline_indent_simps:
  "newline_indent 0 = [10]"
  "newline_indent (Suc 0) = [10, 32, 32]"
  "newline_indent (Suc (Suc 0)) = [10, 32, 32, 32, 32]"
  "newline_indent (Suc (Suc (Suc 0))) = [10, 32, 32, 32, 32, 32, 32]"
  by (simp_all add: newline_indent_def numeral_eq_Suc)

lemma ejemplo_dump: "json_dump (JArr [JObj ejemplo_submission]) = ejemplo_texto"
  by (simp add: json_dump_def ejemplo_submission_def ejemplo_texto_def lit_def newline_indent_simps
      encode_basestring_def escape_char_def str_int_def str_nat_numeral_simps)

theorem historial_round_trip_witness:
  "list_all is_submission [JObj ejemplo_submission]
   \<and> leer_historial (escribir_historial Map.empty (lit ''historial.json'') (JArr [JObj ejemplo_submission]))
        (lit ''historial.json'') = Inr (JArr [JObj ejemplo_submission])
   \<and> escribir_historial Map.empty (lit ''historial.json'') (JArr [JObj ejemplo_submission])
        (lit ''historial.json'') = Some ejemplo_texto
   \<and> (233::nat) \<ge> 128 \<and> escape_char 233 = [233]"
proof -
  have h: "list_all is_submission [JObj ejemplo_submission]"
    by (simp add: is_submission_def ejemplo_submission_def lit_def)
  from historial_round_trip [OF h, of Map.empty "lit ''historial.json''"] h
  show ?thesis by (simp add: escribir_historial_def ejemplo_dump)
qed


lemma json_loads_ejemplo_texto: "json_loads ejemplo_texto = Inr (JArr [JObj ejemplo_submission])"
proof -
  have "wf_value (JArr [JObj ejemplo_submission])"
    by (simp add: ejemplo_submission_def lit_def)
  from json_loads_json_dump [OF this] show ?thesis by (simp add: ejemplo_dump)
qed

lemma historial_path_ejemplo [simp]:
  "historial_path (ejemplo_generator\<lparr>data := d\<rparr>) = lit ''historial.json''"
  by (simp add: ejemplo_generator_def)

theorem append_keeps_entries_witness:
  "files ejemplo_world (historial_path (ejemplo_generator\<lparr>data := ejemplo_submission\<rparr>)) = Some ejemplo_texto
   \<and> json_loads ejemplo_texto = Inr (JArr [JObj ejemplo_submission])
   \<and> wf_list [JObj ejemplo_submission]
   \<and> wf_value (JObj (data (ejemplo_generator\<lparr>data := ejemplo_submission\<rparr>)))
   \<and> (\<exists>fs'. guardar_historial (ejemplo_generator\<lparr>data := ejemplo_submission\<rparr>) (files ejemplo_world) = Inr fs'
         \<and> leer_historial fs' (lit ''historial.json'')
             = Inr (JArr [JObj ejemplo_submission, JObj ejemplo_submission])
         \<and> fs' (lit ''esquema.json'') = files ejemplo_world (lit ''esquema.json''))"
proof -
  let ?g = "ejemplo_generator\<lparr>data := ejemplo_submission\<rparr>"
  have h1: "files ejemplo_world (historial_path ?g) = Some ejemplo_texto"
    by (simp add: ejemplo_world_def)
  have h2: "json_loads ejemplo_texto = Inr (JArr [JObj ejemplo_submission])"
    by (rule json_loads_ejemplo_texto)
  have h3: "wf_list [JObj ejemplo_submission]" by (simp add: ejemplo_submission_def lit_def)
  have h4: "wf_value (JObj (data ?g))" by (simp add: ejemplo_submission_def lit_def)
  have ne: "lit ''esquema.json'' \<noteq> lit ''historial.json''" by (simp add: lit_def)
  from append_keeps_entries [where fs = "files ejemplo_world" and self = ?g, OF h1 h2 h3 h4]
  obtain fs' where
    "guardar_historial ?g (files ejemplo_world) = Inr fs'"
    "leer_historial fs' (historial_path ?g) = Inr (JArr ([JObj ejemplo_submission] @ [JObj (data ?g)]))"
    "\<forall>p. p \<noteq> historial_path ?g \<longrightarrow> fs' p = files ejemplo_world p"
    by blast
  note f = this
  have hp: "historial_path ?g = lit ''historial.json''" by simp
  from f(2) have l: "leer_historial fs' (lit ''historial.json'')
             = Inr (JArr [JObj ejemplo_submission, JObj ejemplo_submission])"
    unfolding hp by simp
  from f(3) ne have o: "fs' (lit ''esquema.json'') = files ejemplo_world (lit ''esquema.json'')"
    unfolding hp by blast
  from f(1) l o have "guardar_historial ?g (files ejemplo_world) = Inr fs'
         \<and> leer_historial fs' (lit ''historial.json'')
             = Inr (JArr [JObj ejemplo_submission, JObj ejemplo_submission])
         \<and> fs' (lit ''esquema.json'') = files ejemplo_world (lit ''esquema.json'')"
    by blast
  with h1 h2 h3 h4 show ?thesis by blast
qed

theorem delete_then_list_witness:
  "(\<exists>content. files ejemplo_world (historial_path ejemplo_generator) = Some content
       \<and> json_loads content = Inr (JArr [JObj ejemplo_submission]))
   \<and> wf_list [JObj ejemplo_submission]
   \<and> (0::int) \<le> 0 \<and> (0::int) < int (length [JObj ejemplo_submission])
   \<and> (\<exists>w'. eliminar_entrada_historial ejemplo_generator ejemplo_world 0 = Inr w'
         \<and> leer_historial (files w') (historial_path ejemplo_generator) = Inr (JArr []))
   \<and> eliminar_entrada_historial ejemplo_generator ejemplo_world 1 = Inr ejemplo_world
   \<and> eliminar_entrada_historial ejemplo_generator ejemplo_world (- 1) = Inr ejemplo_world"
proof -
  let ?xs = "[JObj ejemplo_submission]"
  have h1: "files ejemplo_world (historial_path ejemplo_generator) = None \<and> ?xs = []
       \<or> (\<exists>content. files ejemplo_world (historial_path ejemplo_generator) = Some content
             \<and> json_loads content = Inr (JArr ?xs))"
    by (simp add: ejemplo_world_def ejemplo_generator_def json_loads_ejemplo_texto)
  have h2: "wf_list ?xs" by (simp add: ejemplo_submission_def lit_def)
  from h1 have h1': "\<exists>content. files ejemplo_world (historial_path ejemplo_generator) = Some content
       \<and> json_loads content = Inr (JArr ?xs)" by simp
  note t = delete_then_list [where w = ejemplo_world and self = ejemplo_generator, OF h1 h2]
  have r0: "(0::int) \<le> 0 \<and> (0::int) < int (length ?xs)" by simp
  from t [of 0, THEN conjunct1, rule_format, OF r0] obtain w' new where
    e: "eliminar_entrada_historial ejemplo_generator ejemplo_world 0 = Inr w'"
    and l: "leer_historial (files w') (historial_path ejemplo_generator) = Inr (JArr new)"
    and n: "new = take (nat 0) ?xs @ drop (Suc (nat 0)) ?xs"
    by blast
  from n have "new = []" by simp
  with e l have a: "\<exists>w'. eliminar_entrada_historial ejemplo_generator ejemplo_world 0 = Inr w'
         \<and> leer_historial (files w') (historial_path ejemplo_generator) = Inr (JArr [])"
    by blast
  have r1: "\<not> ((0::int) \<le> 1 \<and> (1::int) < int (length ?xs))" by simp
  from t [of 1, THEN conjunct2, rule_format, OF r1]
  have b: "eliminar_entrada_historial ejemplo_generator ejemplo_world 1 = Inr ejemplo_world" .
  have r2: "\<not> ((0::int) \<le> - 1 \<and> (- 1::int) < int (length ?xs))" by simp
  from t [of "- 1", THEN conjunct2, rule_format, OF r2]
  have c: "eliminar_entrada_historial ejemplo_generator ejemplo_world (- 1) = Inr ejemplo_world" .
  from h1' h2 r0 a b c show ?thesis by blast
qed

lemma scan_once_numeral: "scan_once (numeral k) s = scan_once (Suc (pred_numeral k)) s"
  by (simp add: numeral_eq_Suc)

lemma parse_array_numeral: "parse_array (numeral k) s = parse_array (Suc (pred_numeral k)) s"
  by (simp add: numeral_eq_Suc)

lemma parse_object_numeral: "parse_object (numeral k) s = parse_object (Suc (pred_numeral k)) s"
  by (simp add: numeral_eq_Suc)

lemmas scan_fuel = scan_once_numeral parse_array_numeral parse_object_numeral

lemma json_loads_brace: "json_loads (lit ''{'') = Inl JSONDecodeError"
proof -
  have s: "lit ''{'' = [123]" by (simp add: lit_def)
  show ?thesis unfolding s
    by (simp add: json_loads_def scan_fuel skip_ws_def is_json_ws_def del: Suc_numeral)
qed

text \<open>
  Claim C5. The claim fails on the code: with a history file that is not JSON
  (here the text \<open>{\<close>), \<open>eliminar_entrada_historial\<close> raises \<open>JSONDecodeError\<close>,
  while the load of \<open>mostrar_historial\<close> and \<open>guardar_historial\<close> take the log as
  empty.
\<close>

theorem eliminar_raises_on_corrupt_file:
  "eliminar_entrada_historial ejemplo_generator ejemplo_world_corrupto 0 = Inl JSONDecodeError
   \<and> leer_historial (files ejemplo_world_corrupto) (historial_path ejemplo_generator) = Inr (JArr [])
   \<and> guardar_historial ejemplo_generator (files ejemplo_world_corrupto)
       = Inr (escribir_historial (files ejemplo_world_corrupto) (historial_path ejemplo_generator)
               (JArr [JObj (data ejemplo_generator)]))"
  by (simp add: eliminar_entrada_historial_def leer_historial_def guardar_historial_def
      ejemplo_world_corrupto_def ejemplo_generator_def json_loads_brace)

section \<open>The form\<close>

lemma render_campo_texto:
  assumes "dict_get opts (lit ''tipo'') JNull = JStr (lit ''texto'')"
    and "dict_get opts (lit ''regex'') JNull = JStr pattern" and "pattern \<noteq> []"
    and "text_input e campo (dict_get opts (lit ''placeholder'') (JStr [])) = valor"
    and "valor \<noteq> []"
    and "re_fullmatch e pattern valor = Inr matched"
  shows "render_campo e (self, scr) (campo, JObj opts) =
     Inr (self\<lparr>errores := (if matched then errores self
                              else dict_set (errores self) campo (formato_invalido campo)),
               data := dict_set (data self) campo (JStr valor)\<rparr>, scr)"
  using assms by (simp add: render_campo_def validar_regex_def Let_def)

text \<open>
  Claim C1, as the code has it. For a text field with a non-empty \<open>regex\<close> that
  \<open>re.fullmatch\<close> accepts and a non-empty entered value: when the value does not
  match, the ErrorSet holds exactly one entry for the field, with the message
  \<open>formato_invalido\<close> (the Spanish text of line 23), and when it matches the
  ErrorSet holds no entry for the field; in both cases the entered value is stored
  in the Submission.
\<close>

theorem regex_mismatch_recorded:
  assumes "schema self = JObj items" and "distinct (map fst items)"
    and "(campo, JObj opts) \<in> set items"
    and "dict_get opts (lit ''tipo'') JNull = JStr (lit ''texto'')"
    and "dict_get opts (lit ''regex'') JNull = JStr pattern" and "pattern \<noteq> []"
    and "text_input e campo (dict_get opts (lit ''placeholder'') (JStr [])) = valor"
    and "valor \<noteq> []"
    and "re_fullmatch e pattern valor = Inr matched"
    and "errores self = []"
    and "render_form e self scr = Inr (self', scr')"
  shows "map_of (data self') campo = Some (JStr valor)
       \<and> filter (\<lambda>(k, m). k = campo) (errores self')
           = (if matched then [] else [(campo, formato_invalido campo)])"
proof -
  from assms(1,11) have r: "render_campos e (self, scr) items = Inr (self', scr')"
    by (simp add: render_form_def)
  have d0: "distinct (map fst (errores (fst (self, scr))))" using assms(10) by simp
  from render_campos_at [OF r assms(2,3) d0] obtain st0 st1 where
    a: "render_campo e st0 (campo, JObj opts) = Inr st1"
    and b: "map_of (errores (fst st0)) campo = map_of (errores (fst (self, scr))) campo"
    and c: "distinct (map fst (errores (fst st0)))"
    and d: "map_of (data (fst (self', scr'))) campo = map_of (data (fst st1)) campo"
    and e: "map_of (errores (fst (self', scr'))) campo = map_of (errores (fst st1)) campo"
    by blast
  obtain self0 scr0 where st0: "st0 = (self0, scr0)" by (cases st0)
  from a render_campo_texto [OF assms(4-9), of self0 scr0]
  have st1: "st1 = (self0\<lparr>errores := (if matched then errores self0
                              else dict_set (errores self0) campo (formato_invalido campo)),
               data := dict_set (data self0) campo (JStr valor)\<rparr>, scr0)"
    unfolding st0 by simp
  from d have dat: "map_of (data self') campo = Some (JStr valor)"
    unfolding st1 by (simp add: map_of_dict_set)
  from b assms(10) have n0: "map_of (errores self0) campo = None" unfolding st0 by simp
  have df: "distinct (map fst (errores self'))"
    using render_campos_distinct [OF r d0] by simp
  show ?thesis
  proof (cases matched)
    case True
    with e n0 have "map_of (errores self') campo = None" unfolding st1 by simp
    with True dat show ?thesis by (simp add: filter_key_None)
  next
    case False
    with e have "map_of (errores self') campo = Some (formato_invalido campo)"
      unfolding st1 by (simp add: map_of_dict_set)
    from filter_key_distinct [OF df this] False dat show ?thesis by simp
  qed
qed

lemma lit_eq_simps:
  "lit ''tipo'' \<noteq> lit ''regex''" "lit ''tipo'' \<noteq> lit ''placeholder''"
  "lit ''tipo'' \<noteq> lit ''min''" "lit ''tipo'' \<noteq> lit ''max''"
  "lit ''regex'' \<noteq> lit ''placeholder''" "lit ''min'' \<noteq> lit ''max''"
  "lit ''min'' \<noteq> lit ''regex''" "lit ''min'' \<noteq> lit ''placeholder''"
  "lit ''max'' \<noteq> lit ''regex''" "lit ''max'' \<noteq> lit ''placeholder''"
  "lit ''texto'' \<noteq> lit ''numero''" "lit ''texto'' \<noteq> lit ''booleano''"
  "lit ''texto'' \<noteq> lit ''lista''" "lit ''numero'' \<noteq> lit ''booleano''"
  "lit ''numero'' \<noteq> lit ''lista''" "lit ''booleano'' \<noteq> lit ''lista''"
  "lit ''nombre'' \<noteq> lit ''edad''" "lit ''nombre'' \<noteq> lit ''activo''"
  "lit ''nombre'' \<noteq> lit ''etiquetas''" "lit ''edad'' \<noteq> lit ''activo''"
  "lit ''edad'' \<noteq> lit ''etiquetas''" "lit ''activo'' \<noteq> lit ''etiquetas''"
  "lit ''Ana'' \<noteq> lit ''Bob''" "lit ''Ana'' \<noteq> lit ''(''" "lit ''Ana'' \<noteq> []" "lit ''Bob'' \<noteq> []"
  "lit ''('' \<noteq> []" "lit ''a, b,,c '' \<noteq> []"
  by (simp_all add: lit_def)

lemma ejemplo_render_form:
  "render_form ejemplo_env ejemplo_generator [] =
     Inr (ejemplo_generator
            \<lparr>data := [(lit ''nombre'', JStr (lit ''Bob'')), (lit ''edad'', JInt 30),
                      (lit ''activo'', JBool True),
                      (lit ''etiquetas'', JArr [JStr (lit ''a''), JStr (lit ''b''), JStr (lit ''c'')])],
             errores := [(lit ''nombre'', formato_invalido (lit ''nombre''))]\<rparr>, [])"
  by (simp add: render_form_def ejemplo_generator_def ejemplo_schema_def ejemplo_campos_def ejemplo_nombre_def ejemplo_etiquetas_def render_campo_def
      ejemplo_env_def dict_get_def validar_regex_def ejemplo_fullmatch_def Let_def
      lit_eq_simps lit_eq_simps [symmetric] lista_de_ejemplo)


lemma ejemplo_campos_facts:
  "distinct (map fst ejemplo_campos)"
  "(lit ''nombre'', JObj ejemplo_nombre) \<in> set ejemplo_campos"
  "(lit ''etiquetas'', JObj ejemplo_etiquetas) \<in> set ejemplo_campos"
  "dict_get ejemplo_nombre (lit ''tipo'') JNull = JStr (lit ''texto'')"
  "dict_get ejemplo_nombre (lit ''regex'') JNull = JStr (lit ''Ana'')"
  "dict_get ejemplo_nombre (lit ''placeholder'') (JStr []) = JStr []"
  "dict_get ejemplo_etiquetas (lit ''tipo'') JNull = JStr (lit ''lista'')"
  "dict_get ejemplo_etiquetas (lit ''placeholder'') (JStr []) = JStr []"
  by (simp_all add: ejemplo_campos_def ejemplo_nombre_def ejemplo_etiquetas_def dict_get_def
      lit_eq_simps lit_eq_simps [symmetric])

theorem regex_mismatch_recorded_witness:
  "schema ejemplo_generator = JObj ejemplo_campos
   \<and> distinct (map fst ejemplo_campos)
   \<and> (lit ''nombre'', JObj ejemplo_nombre) \<in> set ejemplo_campos
   \<and> dict_get ejemplo_nombre (lit ''tipo'') JNull = JStr (lit ''texto'')
   \<and> dict_get ejemplo_nombre (lit ''regex'') JNull = JStr (lit ''Ana'')
   \<and> lit ''Ana'' \<noteq> []
   \<and> text_input ejemplo_env (lit ''nombre'') (dict_get ejemplo_nombre (lit ''placeholder'') (JStr []))
       = lit ''Bob''
   \<and> lit ''Bob'' \<noteq> []
   \<and> re_fullmatch ejemplo_env (lit ''Ana'') (lit ''Bob'') = Inr False
   \<and> errores ejemplo_generator = []
   \<and> (\<exists>self'. render_form ejemplo_env ejemplo_generator [] = Inr (self', [])
         \<and> map_of (data self') (lit ''nombre'') = Some (JStr (lit ''Bob''))
         \<and> filter (\<lambda>(k, m). k = lit ''nombre'') (errores self')
             = [(lit ''nombre'', formato_invalido (lit ''nombre''))])"
proof -
  have h1: "schema ejemplo_generator = JObj ejemplo_campos"
    by (simp add: ejemplo_generator_def ejemplo_schema_def)
  note h2 = ejemplo_campos_facts(1) and h3 = ejemplo_campos_facts(2)
    and h4 = ejemplo_campos_facts(4) and h5 = ejemplo_campos_facts(5)
  have h6: "lit ''Ana'' \<noteq> []" and h8: "lit ''Bob'' \<noteq> []" by (simp_all add: lit_eq_simps)
  have h7: "text_input ejemplo_env (lit ''nombre'')
      (dict_get ejemplo_nombre (lit ''placeholder'') (JStr [])) = lit ''Bob''"
    by (simp add: ejemplo_env_def lit_eq_simps)
  have h9: "re_fullmatch ejemplo_env (lit ''Ana'') (lit ''Bob'') = Inr False"
    by (simp add: ejemplo_env_def ejemplo_fullmatch_def lit_eq_simps)
  have h10: "errores ejemplo_generator = []" by (simp add: ejemplo_generator_def)
  note h11 = ejemplo_render_form
  from regex_mismatch_recorded [OF h1 h2 h3 h4 h5 h6 h7 h8 h9 h10 h11]
  have "\<exists>self'. render_form ejemplo_env ejemplo_generator [] = Inr (self', [])
         \<and> map_of (data self') (lit ''nombre'') = Some (JStr (lit ''Bob''))
         \<and> filter (\<lambda>(k, m). k = lit ''nombre'') (errores self')
             = [(lit ''nombre'', formato_invalido (lit ''nombre''))]"
    using h11 by simp
  with h1 h2 h3 h4 h5 h6 h7 h8 h9 h10 show ?thesis by blast
qed

lemma formato_invalido_not_english:
  "formato_invalido (lit ''nombre'') \<noteq> lit ''Invalid format for '' @ [39] @ lit ''nombre'' @ [39]"
  by (simp add: formato_invalido_def lit_def)

lemma ejemplo_render_form_empty_regex:
  "render_form ejemplo_env
     (ejemplo_generator\<lparr>schema := JObj [(lit ''nombre'',
        JObj [(lit ''tipo'', JStr (lit ''texto'')), (lit ''regex'', JStr [])])]\<rparr>) [] =
   Inr (ejemplo_generator\<lparr>schema := JObj [(lit ''nombre'',
          JObj [(lit ''tipo'', JStr (lit ''texto'')), (lit ''regex'', JStr [])])],
        data := [(lit ''nombre'', JStr (lit ''Bob''))]\<rparr>, [])"
  by (simp add: render_form_def ejemplo_generator_def render_campo_def
      ejemplo_env_def dict_get_def validar_regex_def ejemplo_fullmatch_def Let_def
      lit_eq_simps lit_eq_simps [symmetric])

lemma ejemplo_render_form_bad_regex:
  "render_form ejemplo_env
     (ejemplo_generator\<lparr>schema := JObj [(lit ''nombre'',
        JObj [(lit ''tipo'', JStr (lit ''texto'')), (lit ''regex'', JStr (lit ''(''))])]\<rparr>) [] =
   Inl PatternError"
  by (simp add: render_form_def ejemplo_generator_def render_campo_def
      ejemplo_env_def dict_get_def validar_regex_def ejemplo_fullmatch_def Let_def
      lit_eq_simps lit_eq_simps [symmetric])

text \<open>
  Claim C1 as stated fails. The message recorded is not the English text of the
  claim; a \<open>regex\<close> that is the empty string is never applied (\<open>if valor and
  regex\<close>), so a non-empty value that does not match it records no error; and a
  \<open>regex\<close> that does not compile makes \<open>render_form\<close> raise.
\<close>

theorem regex_message_counterexample:
  "(\<exists>self'. render_form ejemplo_env ejemplo_generator [] = Inr (self', [])
      \<and> re_fullmatch ejemplo_env (lit ''Ana'') (lit ''Bob'') = Inr False
      \<and> errores self' = [(lit ''nombre'', formato_invalido (lit ''nombre''))]
      \<and> formato_invalido (lit ''nombre'')
          \<noteq> lit ''Invalid format for '' @ [39] @ lit ''nombre'' @ [39])
   \<and> (\<exists>self'. render_form ejemplo_env
          (ejemplo_generator\<lparr>schema := JObj [(lit ''nombre'',
             JObj [(lit ''tipo'', JStr (lit ''texto'')), (lit ''regex'', JStr [])])]\<rparr>) []
          = Inr (self', [])
      \<and> re_fullmatch ejemplo_env [] (lit ''Bob'') = Inr False
      \<and> errores self' = [])
   \<and> render_form ejemplo_env
        (ejemplo_generator\<lparr>schema := JObj [(lit ''nombre'',
           JObj [(lit ''tipo'', JStr (lit ''texto'')), (lit ''regex'', JStr (lit ''(''))])]\<rparr>) []
        = Inl PatternError"
proof -
  have a: "re_fullmatch ejemplo_env (lit ''Ana'') (lit ''Bob'') = Inr False"
    by (simp add: ejemplo_env_def ejemplo_fullmatch_def lit_eq_simps)
  have b: "re_fullmatch ejemplo_env [] (lit ''Bob'') = Inr False"
    by (simp add: ejemplo_env_def ejemplo_fullmatch_def lit_eq_simps lit_eq_simps [symmetric])
  have c: "errores (ejemplo_generator\<lparr>schema := JObj [(lit ''nombre'',
          JObj [(lit ''tipo'', JStr (lit ''texto'')), (lit ''regex'', JStr [])])],
        data := [(lit ''nombre'', JStr (lit ''Bob''))]\<rparr>) = []"
    by (simp add: ejemplo_generator_def)
  show ?thesis
    using a b c formato_invalido_not_english ejemplo_render_form
      ejemplo_render_form_empty_regex ejemplo_render_form_bad_regex
    by simp
qed


lemma render_campos_data_at:
  assumes "render_campos e st items = Inr st'"
    and "distinct (map fst items)" and "(c, opciones) \<in> set items"
  shows "\<exists>st0 st1. render_campo e st0 (c, opciones) = Inr st1
           \<and> map_of (data (fst st')) c = map_of (data (fst st1)) c"
  using assms
proof (induction items arbitrary: st)
  case Nil
  then show ?case by simp
next
  case (Cons item items)
  obtain k o' where i: "item = (k, o')" by (cases item)
  from Cons.prems(1) obtain st1 where
    a: "render_campo e st (k, o') = Inr st1" and b: "render_campos e st1 items = Inr st'"
    unfolding i by (auto split: sum.splits)
  show ?case
  proof (cases "k = c")
    case True
    with Cons.prems(2,3) have "o' = opciones" and "c \<notin> fst ` set items"
      unfolding i by (auto simp: image_iff)
    with render_campos_other [OF b, of c] a True show ?thesis by blast
  next
    case False
    with Cons.prems(3) have m: "(c, opciones) \<in> set items" unfolding i by auto
    from Cons.prems(2) have d: "distinct (map fst items)" by simp
    from Cons.IH [OF b d m] show ?thesis .
  qed
qed

lemma render_campo_lista:
  assumes "dict_get opts (lit ''tipo'') JNull = JStr (lit ''lista'')"
    and "text_input e campo (dict_get opts (lit ''placeholder'') (JStr [])) = texto"
  shows "render_campo e (self, scr) (campo, JObj opts) =
     Inr (self\<lparr>data := dict_set (data self) campo (JArr (map JStr (lista_de texto)))\<rparr>, scr)"
  using assms
  by (simp add: render_campo_def Let_def lit_eq_simps lit_eq_simps [symmetric])

text \<open>
  Claim C2. For a list field the value stored is \<open>lista_de\<close> of the entered text:
  the text is split at its commas (the segments joined by commas give the text
  back, and no segment holds a comma), each segment is stripped (what is removed
  at both ends is whitespace, and what is left neither starts nor ends with
  whitespace), the empty results are dropped and the others kept in their order,
  duplicates included; \<open>"a, b,,c "\<close> gives \<open>["a", "b", "c"]\<close>.
\<close>

theorem lista_split_trim_drop:
  assumes "schema self = JObj items" and "distinct (map fst items)"
    and "(campo, JObj opts) \<in> set items"
    and "dict_get opts (lit ''tipo'') JNull = JStr (lit ''lista'')"
    and "text_input e campo (dict_get opts (lit ''placeholder'') (JStr [])) = texto"
    and "render_form e self scr = Inr (self', scr')"
  shows "map_of (data self') campo = Some (JArr (map JStr (lista_de texto)))
       \<and> lista_de texto = filter (\<lambda>s. s \<noteq> []) (map str_strip (str_split 44 texto))
       \<and> str_join 44 (str_split 44 texto) = texto
       \<and> (\<forall>seg \<in> set (str_split 44 texto).
             44 \<notin> set seg
             \<and> (\<exists>l r. seg = l @ str_strip seg @ r \<and> list_all isspace l \<and> list_all isspace r)
             \<and> (str_strip seg \<noteq> [] \<longrightarrow>
                  \<not> isspace (hd (str_strip seg)) \<and> \<not> isspace (last (str_strip seg))))
       \<and> lista_de (lit ''a, b,,c '') = [lit ''a'', lit ''b'', lit ''c'']"
proof -
  from assms(1,6) have r: "render_campos e (self, scr) items = Inr (self', scr')"
    by (simp add: render_form_def)
  from render_campos_data_at [OF r assms(2,3)] obtain st0 st1 where
    a: "render_campo e st0 (campo, JObj opts) = Inr st1"
    and d: "map_of (data (fst (self', scr'))) campo = map_of (data (fst st1)) campo"
    by blast
  obtain self0 scr0 where st0: "st0 = (self0, scr0)" by (cases st0)
  from a render_campo_lista [OF assms(4,5), of self0 scr0]
  have "st1 = (self0\<lparr>data := dict_set (data self0) campo (JArr (map JStr (lista_de texto)))\<rparr>, scr0)"
    unfolding st0 by simp
  with d have "map_of (data self') campo = Some (JArr (map JStr (lista_de texto)))"
    by (simp add: map_of_dict_set)
  moreover have "\<forall>seg \<in> set (str_split 44 texto).
             44 \<notin> set seg
             \<and> (\<exists>l r. seg = l @ str_strip seg @ r \<and> list_all isspace l \<and> list_all isspace r)
             \<and> (str_strip seg \<noteq> [] \<longrightarrow>
                  \<not> isspace (hd (str_strip seg)) \<and> \<not> isspace (last (str_strip seg)))"
    using str_split_no_sep [of 44 texto] str_strip_decompose str_strip_ends by blast
  ultimately show ?thesis
    using lista_de_filter_map str_join_split lista_de_ejemplo by blast
qed

theorem lista_split_trim_drop_witness:
  "schema ejemplo_generator = JObj ejemplo_campos
   \<and> distinct (map fst ejemplo_campos)
   \<and> (lit ''etiquetas'', JObj ejemplo_etiquetas) \<in> set ejemplo_campos
   \<and> dict_get ejemplo_etiquetas (lit ''tipo'') JNull = JStr (lit ''lista'')
   \<and> text_input ejemplo_env (lit ''etiquetas'')
        (dict_get ejemplo_etiquetas (lit ''placeholder'') (JStr [])) = lit ''a, b,,c ''
   \<and> (\<exists>self'. render_form ejemplo_env ejemplo_generator [] = Inr (self', [])
         \<and> map_of (data self') (lit ''etiquetas'')
             = Some (JArr [JStr (lit ''a''), JStr (lit ''b''), JStr (lit ''c'')]))
   \<and> str_split 44 (lit ''a, b,,c '') = [lit ''a'', lit '' b'', [], lit ''c '']
   \<and> str_strip (lit ''c '') = lit ''c''"
proof -
  have h1: "schema ejemplo_generator = JObj ejemplo_campos"
    by (simp add: ejemplo_generator_def ejemplo_schema_def)
  note h2 = ejemplo_campos_facts(1) and h3 = ejemplo_campos_facts(3)
    and h4 = ejemplo_campos_facts(7)
  have h5: "text_input ejemplo_env (lit ''etiquetas'')
        (dict_get ejemplo_etiquetas (lit ''placeholder'') (JStr [])) = lit ''a, b,,c ''"
    by (simp add: ejemplo_env_def)
  note h6 = ejemplo_render_form
  from lista_split_trim_drop [OF h1 h2 h3 h4 h5 h6, THEN conjunct1]
  have "map_of (data (ejemplo_generator
            \<lparr>data := [(lit ''nombre'', JStr (lit ''Bob'')), (lit ''edad'', JInt 30),
                      (lit ''activo'', JBool True),
                      (lit ''etiquetas'', JArr [JStr (lit ''a''), JStr (lit ''b''), JStr (lit ''c'')])],
             errores := [(lit ''nombre'', formato_invalido (lit ''nombre''))]\<rparr>)) (lit ''etiquetas'')
       = Some (JArr [JStr (lit ''a''), JStr (lit ''b''), JStr (lit ''c'')])"
    unfolding lista_de_ejemplo by (simp only: list.map)
  with h6 have "\<exists>self'. render_form ejemplo_env ejemplo_generator [] = Inr (self', [])
         \<and> map_of (data self') (lit ''etiquetas'')
             = Some (JArr [JStr (lit ''a''), JStr (lit ''b''), JStr (lit ''c'')])"
    by blast
  moreover have "str_split 44 (lit ''a, b,,c '') = [lit ''a'', lit '' b'', [], lit ''c '']"
    by (simp add: lit_def)
  moreover have "str_strip (lit ''c '') = lit ''c''"
    by (simp add: lit_def str_strip_def isspace_def)
  ultimately show ?thesis using h1 h2 h3 h4 h5 by blast
qed

section \<open>The schema loader and the remote submission\<close>









text \<open>
  The text \<open>NaN\<close> is not valid JSON, and the decoder reads it: the grammar that
  \<open>json.load\<close> accepts is larger than JSON.
\<close>

lemma nan_loaded_not_json:
  "json_loads (lit ''NaN'') = Inr (JFloat (lit ''NaN'')) \<and> \<not> valid_json (lit ''NaN'')"
proof -
  have s: "lit ''NaN'' = [78, 97, 78]" by (simp add: lit_def)
  have a: "json_loads (lit ''NaN'') = Inr (JFloat (lit ''NaN''))"
    unfolding s
    by (simp add: json_loads_def scan_fuel skip_ws_def is_json_ws_def match_number_def
      match_integer_def lit_def del: Suc_numeral)
  have "skip_ws (lit ''NaN'') = 78 # [97, 78]" unfolding s by (simp add: skip_ws_def is_json_ws_def)
  with valid_json_start [of "lit ''NaN''"] have "\<not> valid_json (lit ''NaN'')" by auto
  with a show ?thesis by blast
qed



text \<open>
  Claim C7. When the form is submitted with a URL, exactly one alert is added: it is
  the success alert if and only if the response has status 200, a warning with the
  status code for any other status, and an error with the text of the exception
  when \<open>requests.post\<close> raises. \<open>enviar_json\<close> returns in every case, and so does
  \<open>render_output\<close> (shown here when the save button is not pressed; saving is the
  only part of \<open>render_output\<close> that can raise).
\<close>

theorem remote_submission_reported:
  assumes "form_submit_button e" and "url_input e \<noteq> []"
  shows "\<exists>m. enviar_json e self w
            = w\<lparr>posted := posted w @ [(url_input e, JObj (data self))], screen := screen w @ [m]\<rparr>
         \<and> (m = St_success datos_enviados
              \<longleftrightarrow> requests_post e (url_input e) (JObj (data self)) = Inr 200)
         \<and> (\<forall>status_code. requests_post e (url_input e) (JObj (data self)) = Inr status_code
              \<longrightarrow> status_code \<noteq> 200 \<longrightarrow> m = St_warning (error_al_enviar status_code))
         \<and> (\<forall>msg. requests_post e (url_input e) (JObj (data self)) = Inl msg
              \<longrightarrow> m = St_error (fallo_al_enviar msg))
         \<and> (errores self = [] \<longrightarrow> \<not> guardar_button e \<longrightarrow>
               render_output e self w
                 = Inr (enviar_json e self (w\<lparr>screen := screen w @ [St_success json_valido_generado]\<rparr>)))"
proof (cases "requests_post e (url_input e) (JObj (data self))")
  case (Inl msg)
  with assms show ?thesis
    by (intro exI [of _ "St_error (fallo_al_enviar msg)"])
      (simp add: enviar_json_def render_output_def Let_def)
next
  case (Inr status_code)
  show ?thesis
  proof (cases "status_code = 200")
    case True
    with Inr assms show ?thesis
      by (intro exI [of _ "St_success datos_enviados"])
        (simp add: enviar_json_def render_output_def Let_def)
  next
    case False
    with Inr assms show ?thesis
      by (intro exI [of _ "St_warning (error_al_enviar status_code)"])
        (simp add: enviar_json_def render_output_def Let_def)
  qed
qed

text \<open>
  Claim C10. Submitting with an empty URL only adds the warning: no request is
  issued. \<open>enviar_json\<close> issues a request, one, with the Submission as its body,
  exactly when the form is submitted and the URL is not empty; through
  \<open>render_output\<close> this needs an empty ErrorSet as well, since the form is not
  shown otherwise.
\<close>

theorem post_only_with_url:
  "(form_submit_button e \<and> url_input e = [] \<longrightarrow>
      enviar_json e self w = w\<lparr>screen := screen w @ [St_warning url_requerida]\<rparr>)
   \<and> posted (enviar_json e self w)
       = (if form_submit_button e \<and> url_input e \<noteq> []
          then posted w @ [(url_input e, JObj (data self))] else posted w)
   \<and> (\<forall>w'. render_output e self w = Inr w' \<longrightarrow>
         posted w' = (if errores self = [] \<and> form_submit_button e \<and> url_input e \<noteq> []
                      then posted w @ [(url_input e, JObj (data self))] else posted w))"
proof -
  have p: "posted (enviar_json e self w0)
       = (if form_submit_button e \<and> url_input e \<noteq> []
          then posted w0 @ [(url_input e, JObj (data self))] else posted w0)" for w0
    by (simp add: enviar_json_def Let_def split: sum.splits)
  have "\<forall>w'. render_output e self w = Inr w' \<longrightarrow>
         posted w' = (if errores self = [] \<and> form_submit_button e \<and> url_input e \<noteq> []
                      then posted w @ [(url_input e, JObj (data self))] else posted w)"
  proof (intro allI impI)
    fix w' assume r: "render_output e self w = Inr w'"
    show "posted w' = (if errores self = [] \<and> form_submit_button e \<and> url_input e \<noteq> []
                      then posted w @ [(url_input e, JObj (data self))] else posted w)"
    proof (cases "errores self = []")
      case False
      with r show ?thesis by (auto simp: render_output_def)
    next
      case True
      with r obtain w2 where w': "w' = enviar_json e self w2" and pw: "posted w2 = posted w"
        by (auto simp: render_output_def Let_def split: if_splits sum.splits)
      with True p [of w2] show ?thesis by simp
    qed
  qed
  with p [of w] show ?thesis by (simp add: enviar_json_def)
qed


theorem remote_submission_reported_witness:
  "form_submit_button (ejemplo_env\<lparr>url_input := lit ''http://x''\<rparr>)
   \<and> url_input (ejemplo_env\<lparr>url_input := lit ''http://x''\<rparr>) \<noteq> []
   \<and> enviar_json (ejemplo_env\<lparr>url_input := lit ''http://x''\<rparr>) ejemplo_generator ejemplo_world
       = ejemplo_world\<lparr>posted := [(lit ''http://x'', JObj [])],
                        screen := [St_success datos_enviados]\<rparr>
   \<and> enviar_json (ejemplo_env\<lparr>url_input := lit ''http://x'', requests_post := (\<lambda>url body. Inr 500)\<rparr>)
        ejemplo_generator ejemplo_world
       = ejemplo_world\<lparr>posted := [(lit ''http://x'', JObj [])],
                        screen := [St_warning (error_al_enviar 500)]\<rparr>
   \<and> enviar_json (ejemplo_env\<lparr>url_input := lit ''http://x'',
                                 requests_post := (\<lambda>url body. Inl (lit ''timeout''))\<rparr>)
        ejemplo_generator ejemplo_world
       = ejemplo_world\<lparr>posted := [(lit ''http://x'', JObj [])],
                        screen := [St_error (fallo_al_enviar (lit ''timeout''))]\<rparr>"
proof -
  let ?e1 = "ejemplo_env\<lparr>url_input := lit ''http://x''\<rparr>"
  let ?e2 = "ejemplo_env\<lparr>url_input := lit ''http://x'', requests_post := (\<lambda>url body. Inr 500)\<rparr>"
  let ?e3 = "ejemplo_env\<lparr>url_input := lit ''http://x'',
                                 requests_post := (\<lambda>url body. Inl (lit ''timeout''))\<rparr>"
  have u: "lit ''http://x'' \<noteq> []" by (simp add: lit_def)
  have b1: "form_submit_button ?e1" and b2: "form_submit_button ?e2" and b3: "form_submit_button ?e3"
    by (simp_all add: ejemplo_env_def)
  have u1: "url_input ?e1 \<noteq> []" and u2: "url_input ?e2 \<noteq> []" and u3: "url_input ?e3 \<noteq> []"
    using u by simp_all
  have g: "data ejemplo_generator = []" "posted ejemplo_world = []" "screen ejemplo_world = []"
    by (simp_all add: ejemplo_generator_def ejemplo_world_def)
  from remote_submission_reported [OF b1 u1, of ejemplo_generator ejemplo_world] obtain m1 where
    m1: "enviar_json ?e1 ejemplo_generator ejemplo_world
          = ejemplo_world\<lparr>posted := posted ejemplo_world @ [(url_input ?e1, JObj (data ejemplo_generator))],
                           screen := screen ejemplo_world @ [m1]\<rparr>"
    "(m1 = St_success datos_enviados)
       = (requests_post ?e1 (url_input ?e1) (JObj (data ejemplo_generator)) = Inr 200)"
    by blast
  from m1(2) have "m1 = St_success datos_enviados" by (simp add: ejemplo_env_def)
  with m1(1) g have r1: "enviar_json ?e1 ejemplo_generator ejemplo_world
       = ejemplo_world\<lparr>posted := [(lit ''http://x'', JObj [])],
                        screen := [St_success datos_enviados]\<rparr>" by simp
  from remote_submission_reported [OF b2 u2, of ejemplo_generator ejemplo_world] obtain m2 where
    m2: "enviar_json ?e2 ejemplo_generator ejemplo_world
          = ejemplo_world\<lparr>posted := posted ejemplo_world @ [(url_input ?e2, JObj (data ejemplo_generator))],
                           screen := screen ejemplo_world @ [m2]\<rparr>"
    "\<forall>status_code. requests_post ?e2 (url_input ?e2) (JObj (data ejemplo_generator)) = Inr status_code
        \<longrightarrow> status_code \<noteq> 200 \<longrightarrow> m2 = St_warning (error_al_enviar status_code)"
    by blast
  from m2(2) have "m2 = St_warning (error_al_enviar 500)" by simp
  with m2(1) g have r2: "enviar_json ?e2 ejemplo_generator ejemplo_world
       = ejemplo_world\<lparr>posted := [(lit ''http://x'', JObj [])],
                        screen := [St_warning (error_al_enviar 500)]\<rparr>" by simp
  from remote_submission_reported [OF b3 u3, of ejemplo_generator ejemplo_world] obtain m3 where
    m3: "enviar_json ?e3 ejemplo_generator ejemplo_world
          = ejemplo_world\<lparr>posted := posted ejemplo_world @ [(url_input ?e3, JObj (data ejemplo_generator))],
                           screen := screen ejemplo_world @ [m3]\<rparr>"
    "\<forall>msg. requests_post ?e3 (url_input ?e3) (JObj (data ejemplo_generator)) = Inl msg
        \<longrightarrow> m3 = St_error (fallo_al_enviar msg)"
    by blast
  from m3(2) have "m3 = St_error (fallo_al_enviar (lit ''timeout''))" by simp
  with m3(1) g have r3: "enviar_json ?e3 ejemplo_generator ejemplo_world
       = ejemplo_world\<lparr>posted := [(lit ''http://x'', JObj [])],
                        screen := [St_error (fallo_al_enviar (lit ''timeout''))]\<rparr>" by simp
  from b1 u1 r1 r2 r3 show ?thesis by blast
qed

theorem post_only_with_url_witness:
  "form_submit_button ejemplo_env \<and> url_input ejemplo_env = []
   \<and> enviar_json ejemplo_env ejemplo_generator ejemplo_world
       = ejemplo_world\<lparr>screen := screen ejemplo_world @ [St_warning url_requerida]\<rparr>
   \<and> posted (enviar_json ejemplo_env ejemplo_generator ejemplo_world) = posted ejemplo_world
   \<and> posted (enviar_json (ejemplo_env\<lparr>url_input := lit ''http://x''\<rparr>) ejemplo_generator ejemplo_world)
       = posted ejemplo_world @ [(lit ''http://x'', JObj (data ejemplo_generator))]
   \<and> posted (enviar_json (ejemplo_env\<lparr>url_input := lit ''http://x'', form_submit_button := False\<rparr>)
         ejemplo_generator ejemplo_world) = posted ejemplo_world"
proof -
  let ?e1 = "ejemplo_env\<lparr>url_input := lit ''http://x''\<rparr>"
  let ?e2 = "ejemplo_env\<lparr>url_input := lit ''http://x'', form_submit_button := False\<rparr>"
  have u: "lit ''http://x'' \<noteq> []" by (simp add: lit_def)
  have a: "form_submit_button ejemplo_env \<and> url_input ejemplo_env = []"
    by (simp add: ejemplo_env_def)
  from post_only_with_url [of ejemplo_env ejemplo_generator ejemplo_world] a
  have r0: "enviar_json ejemplo_env ejemplo_generator ejemplo_world
       = ejemplo_world\<lparr>screen := screen ejemplo_world @ [St_warning url_requerida]\<rparr>"
    and p0: "posted (enviar_json ejemplo_env ejemplo_generator ejemplo_world) = posted ejemplo_world"
    by simp_all
  have b1: "form_submit_button ?e1 \<and> url_input ?e1 \<noteq> []" using u by (simp add: ejemplo_env_def)
  from post_only_with_url [of ?e1 ejemplo_generator ejemplo_world] b1
  have p1: "posted (enviar_json ?e1 ejemplo_generator ejemplo_world)
       = posted ejemplo_world @ [(lit ''http://x'', JObj (data ejemplo_generator))]"
    by simp
  have b2: "\<not> form_submit_button ?e2" by simp
  from post_only_with_url [of ?e2 ejemplo_generator ejemplo_world] b2
  have p2: "posted (enviar_json ?e2 ejemplo_generator ejemplo_world) = posted ejemplo_world"
    by simp
  from a r0 p0 p1 p2 show ?thesis by blast
qed

end
